theory Spec2Isabelle
  imports Complex_Main
begin

section \<open>Data model\<close>

text \<open>
  The Python sources compute with IEEE doubles and numpy \<open>complex128\<close>. They are modelled
  by \<open>real\<close> and \<open>complex\<close>: rounding, infinities and NaN are outside the model. The only
  place of the code where a non-finite value arises without an exception is a division by a
  transformer ratio \<open>tap = 0\<close> (numpy then yields inf/nan entries); there the model follows
  HOL's \<open>x / 0 = 0\<close> and agrees with numpy only on the control flow.
  Indices are Python integers (\<open>int\<close>); subscripting follows Python and numpy: a negative
  index counts from the end, an index outside \<open>[-n, n)\<close> raises \<open>IndexError\<close>.
\<close>

datatype error =
    AssertionError
  | StopIteration
  | ZeroDivisionError
  | IndexError
  | ValueError
  | LinAlgError
  | UnboundLocalError

datatype BusType = SLACK | PV | PQ

record Bus =
  bus_idx :: int
  bus_type :: BusType
  bus_V :: real
  bus_theta_deg :: real
  bus_P :: real
  bus_Q :: real
  bus_Qmin :: "real option"
  bus_Qmax :: "real option"

record Branch =
  br_i :: int
  br_j :: int
  br_r :: real
  br_x :: real
  br_b :: real
  br_tap :: real
  br_shift_deg :: real

record Shunt =
  sh_k :: int
  sh_g :: real
  sh_b :: real

record Network =
  buses :: "Bus list"
  branches :: "Branch list"
  shunts :: "Shunt list"
  base_mva :: real

text \<open>\<open>Branch.__init__\<close>: the five assertions in source order, then the fields.\<close>

definition Branch_init :: "int \<Rightarrow> int \<Rightarrow> real \<Rightarrow> real \<Rightarrow> real \<Rightarrow> real \<Rightarrow> real \<Rightarrow> error + Branch" where
  "Branch_init i j r x b tap shift_deg =
     (if \<not> (i \<ge> 0 \<and> j \<ge> 0 \<and> i \<noteq> j) then Inl AssertionError
      else if \<not> (r \<ge> 0 \<and> x \<ge> 0) then Inl AssertionError
      else if \<not> (b \<ge> 0) then Inl AssertionError
      else if \<not> (tap \<ge> 0) then Inl AssertionError
      else if \<not> (shift_deg \<ge> 0 \<and> shift_deg \<le> 360) then Inl AssertionError
      else Inr \<lparr>br_i = i, br_j = j, br_r = r, br_x = x, br_b = b,
                br_tap = tap, br_shift_deg = shift_deg\<rparr>)"

section \<open>Network queries\<close>

definition nbus :: "Network \<Rightarrow> nat" where
  "nbus net = length (buses net)"

text \<open>\<open>next(b.idx for b in self.buses if b.type == BusType.SLACK)\<close>: the first match,
  \<open>StopIteration\<close> when the generator is exhausted.\<close>

definition slack_index :: "Network \<Rightarrow> error + int" where
  "slack_index net =
     (case filter (\<lambda>b. bus_type b = SLACK) (buses net) of
        [] \<Rightarrow> Inl StopIteration
      | b # _ \<Rightarrow> Inr (bus_idx b))"

definition pv_indices :: "Network \<Rightarrow> int list" where
  "pv_indices net = map bus_idx (filter (\<lambda>b. bus_type b = PV) (buses net))"

definition pq_indices :: "Network \<Rightarrow> int list" where
  "pq_indices net = map bus_idx (filter (\<lambda>b. bus_type b = PQ) (buses net))"

section \<open>Subscripting\<close>

text \<open>The position a Python or numpy subscript \<open>k\<close> addresses in a sequence of length \<open>n\<close>.\<close>

definition py_index :: "nat \<Rightarrow> int \<Rightarrow> nat option" where
  "py_index n k =
     (if 0 \<le> k \<and> k < int n then Some (nat k)
      else if - int n \<le> k \<and> k < 0 then Some (nat (k + int n))
      else None)"

text \<open>The same position for a subscript already known to be in range.\<close>

definition pos :: "nat \<Rightarrow> int \<Rightarrow> nat" where
  "pos n k = nat (if k < 0 then k + int n else k)"

definition ebind :: "error + 'a \<Rightarrow> ('a \<Rightarrow> error + 'b) \<Rightarrow> error + 'b" where
  "ebind m f = (case m of Inl e \<Rightarrow> Inl e | Inr a \<Rightarrow> f a)"

section \<open>Admittance matrix\<close>

type_synonym cmatrix = "complex list list"

definition deg2rad :: "real \<Rightarrow> real" where
  "deg2rad d = d * pi / 180"

definition mat_add :: "cmatrix \<Rightarrow> nat \<Rightarrow> nat \<Rightarrow> complex \<Rightarrow> cmatrix" where
  "mat_add Y a b v = Y[a := (Y ! a)[b := Y ! a ! b + v]]"

text \<open>\<open>Y[i, j] += v\<close> on an \<open>n \<times> n\<close> array.\<close>

definition add_at :: "nat \<Rightarrow> cmatrix \<Rightarrow> int \<Rightarrow> int \<Rightarrow> complex \<Rightarrow> error + cmatrix" where
  "add_at n Y i j v =
     (case py_index n i of
        None \<Rightarrow> Inl IndexError
      | Some a \<Rightarrow> (case py_index n j of
                    None \<Rightarrow> Inl IndexError
                  | Some b \<Rightarrow> Inr (mat_add Y a b v)))"

text \<open>The body of \<open>for br in network.branches\<close> in \<open>build_ybus\<close>. Python's \<open>1 / z\<close> on a
  complex zero raises \<open>ZeroDivisionError\<close> before any entry is touched.\<close>

definition branch_stamp :: "nat \<Rightarrow> cmatrix \<Rightarrow> Branch \<Rightarrow> error + cmatrix" where
  "branch_stamp n Y br =
     (let z = Complex (br_r br) (br_x br) in
      if z = 0 then Inl ZeroDivisionError
      else
        let y = 1 / z;
            ysh = \<i> * of_real (br_b br) / 2;
            t = of_real (br_tap br) * exp (\<i> * of_real (deg2rad (br_shift_deg br)));
            i = br_i br;
            j = br_j br
        in ebind (add_at n Y i i ((y + ysh) / of_real ((cmod t)\<^sup>2))) (\<lambda>Y1.
           ebind (add_at n Y1 j j (y + ysh)) (\<lambda>Y2.
           ebind (add_at n Y2 i j (- y / cnj t)) (\<lambda>Y3.
           add_at n Y3 j i (- y / t)))))"

fun stamp_branches :: "nat \<Rightarrow> cmatrix \<Rightarrow> Branch list \<Rightarrow> error + cmatrix" where
  "stamp_branches n Y [] = Inr Y"
| "stamp_branches n Y (br # brs) =
     (case branch_stamp n Y br of
        Inl e \<Rightarrow> Inl e
      | Inr Y' \<Rightarrow> stamp_branches n Y' brs)"

definition shunt_stamp :: "nat \<Rightarrow> cmatrix \<Rightarrow> Shunt \<Rightarrow> error + cmatrix" where
  "shunt_stamp n Y sh = add_at n Y (sh_k sh) (sh_k sh) (Complex (sh_g sh) (sh_b sh))"

fun stamp_shunts :: "nat \<Rightarrow> cmatrix \<Rightarrow> Shunt list \<Rightarrow> error + cmatrix" where
  "stamp_shunts n Y [] = Inr Y"
| "stamp_shunts n Y (sh # shs) =
     (case shunt_stamp n Y sh of
        Inl e \<Rightarrow> Inl e
      | Inr Y' \<Rightarrow> stamp_shunts n Y' shs)"

definition build_ybus :: "Network \<Rightarrow> error + cmatrix" where
  "build_ybus net =
     (let n = nbus net;
          Y = replicate n (replicate n 0)
      in ebind (stamp_branches n Y (branches net)) (\<lambda>Y1.
         stamp_shunts n Y1 (shunts net)))"

text \<open>The untransformed pi-model of a branch, written from the words of the specification:
  \<open>y + ySh\<close> added to \<open>Y[i,i]\<close> and to \<open>Y[j,j]\<close>, \<open>-y\<close> added to \<open>Y[i,j]\<close> and to \<open>Y[j,i]\<close>,
  with \<open>y = 1/(r + jx)\<close> and \<open>ySh = j b/2\<close>.\<close>

definition pi_model_stamp :: "nat \<Rightarrow> cmatrix \<Rightarrow> Branch \<Rightarrow> error + cmatrix" where
  "pi_model_stamp n Y br =
     (let z = Complex (br_r br) (br_x br) in
      if z = 0 then Inl ZeroDivisionError
      else
        let y = 1 / z;
            ySh = \<i> * of_real (br_b br) / 2
        in ebind (add_at n Y (br_i br) (br_i br) (y + ySh)) (\<lambda>Y1.
           ebind (add_at n Y1 (br_j br) (br_j br) (y + ySh)) (\<lambda>Y2.
           ebind (add_at n Y2 (br_i br) (br_j br) (- y)) (\<lambda>Y3.
           add_at n Y3 (br_j br) (br_i br) (- y)))))"

section \<open>Newton-Raphson solver\<close>

record LoadFlow =
  tol :: real
  max_iter :: int
  verbose :: bool

text \<open>\<open>LoadFlow.__init__\<close> stores its three arguments.\<close>

definition LoadFlow_init :: "real \<Rightarrow> int \<Rightarrow> bool \<Rightarrow> LoadFlow" where
  "LoadFlow_init t m v = \<lparr>tol = t, max_iter = m, verbose = v\<rparr>"

record LoadFlowResult =
  res_Vm :: "real list"
  res_Va :: "real list"
  res_P :: "real list"
  res_Q :: "real list"
  iterations :: int
  converged :: bool

text \<open>
  The objects a call of \<open>solve\<close> can reach: the \<open>Network\<close> argument and the local variables
  of the call. \<open>f_PQ\<close> holds the locals \<open>P\<close> and \<open>Q\<close>, which are unbound until the loop body
  has run once. The sets \<open>PV_active\<close> and \<open>PV_conv\<close> are kept as duplicate-free lists and
  the limit pass walks \<open>PV_active\<close> in list order. Its body treats each element on its
  own, so the frame a completed pass leaves behind does not depend on the order in which
  Python walks the set; only which exception comes first, when the pass would fail at
  several elements, can depend on it.
\<close>

record frame =
  f_network :: Network
  f_Y :: cmatrix
  f_n :: nat
  f_slack :: int
  f_pv :: "int list"
  f_pq :: "int list"
  f_Vm :: "real list"
  f_Va :: "real list"
  f_P_spec :: "real list"
  f_Q_spec :: "real list"
  f_PV_active :: "int list"
  f_PV_conv :: "int list"
  f_PQ :: "(real list \<times> real list) option"

datatype step = Continue | Raise error | Return LoadFlowResult

text \<open>\<open>numpy.linalg.solve\<close> is a library routine outside the repository: the solver is
  parametrised by it. It returns the solution vector or raises (\<open>LinAlgError\<close> on a
  singular matrix).\<close>

type_synonym lsolve = "real list list \<Rightarrow> real list \<Rightarrow> error + real list"

definition voltages :: "real list \<Rightarrow> real list \<Rightarrow> complex list" where
  "voltages vm va = map2 (\<lambda>m a. of_real m * exp (\<i> * of_real a)) vm va"

definition matvec :: "cmatrix \<Rightarrow> complex list \<Rightarrow> complex list" where
  "matvec Y v = map (\<lambda>row. sum_list (map2 (*) row v)) Y"

text \<open>\<open>V = Vm * exp(1j * Va); I = Y @ V; S = V * conj(I); P = S.real; Q = S.imag\<close>.\<close>

definition injections :: "cmatrix \<Rightarrow> real list \<Rightarrow> real list \<Rightarrow> real list \<times> real list" where
  "injections Y vm va =
     (let V = voltages vm va;
          I = matvec Y V;
          S = map2 (\<lambda>v i. v * cnj i) V I
      in (map Re S, map Im S))"

text \<open>The body of \<open>for k in list(PV_active)\<close>.\<close>

definition convert :: "int \<Rightarrow> nat \<Rightarrow> real \<Rightarrow> frame \<Rightarrow> frame" where
  "convert k p qlim st =
     st\<lparr>f_PV_active := removeAll k (f_PV_active st),
        f_PV_conv := List.insert k (f_PV_conv st),
        f_Q_spec := (f_Q_spec st)[p := qlim]\<rparr>"

definition violated :: "Bus \<Rightarrow> real \<Rightarrow> real option" where
  "violated b q =
     (case bus_Qmin b of
        Some qmin \<Rightarrow>
          if q < qmin then Some qmin
          else (case bus_Qmax b of
                  Some qmax \<Rightarrow> if q > qmax then Some qmax else None
                | None \<Rightarrow> None)
      | None \<Rightarrow>
          (case bus_Qmax b of
             Some qmax \<Rightarrow> if q > qmax then Some qmax else None
           | None \<Rightarrow> None))"

definition enforce_one :: "real list \<Rightarrow> int \<Rightarrow> frame \<Rightarrow> step \<times> frame" where
  "enforce_one Qv k st =
     (case py_index (f_n st) k of
        None \<Rightarrow> (Raise IndexError, st)
      | Some p \<Rightarrow>
          let b = buses (f_network st) ! p in
          (case violated b (Qv ! p) of
             None \<Rightarrow> (Continue, st)
           | Some qlim \<Rightarrow>
               let st' = convert k p qlim st in
               if bus_type b = PV then (Continue, st') else (Raise AssertionError, st')))"

fun enforce_limits :: "real list \<Rightarrow> int list \<Rightarrow> frame \<Rightarrow> step \<times> frame" where
  "enforce_limits Qv [] st = (Continue, st)"
| "enforce_limits Qv (k # ks) st =
     (case enforce_one Qv k st of
        (Continue, st') \<Rightarrow> enforce_limits Qv ks st'
      | (r, st') \<Rightarrow> (r, st'))"

definition p_rows :: "frame \<Rightarrow> int list" where
  "p_rows st = filter (\<lambda>k. k \<noteq> f_slack st) (map int [0..<f_n st])"

definition q_rows :: "frame \<Rightarrow> int list" where
  "q_rows st = sort (remdups (f_pq st @ f_PV_conv st))"

text \<open>\<open>xs[k]\<close> for a subscript in range.\<close>

definition getitem :: "'a list \<Rightarrow> int \<Rightarrow> 'a" where
  "getitem xs k = xs ! pos (length xs) k"

definition mismatch :: "frame \<Rightarrow> real list \<Rightarrow> real list \<Rightarrow> real list" where
  "mismatch st Pv Qv =
     map (\<lambda>k. getitem (f_P_spec st) k - getitem Pv k) (p_rows st)
     @ map (\<lambda>k. getitem (f_Q_spec st) k - getitem Qv k) (q_rows st)"

definition max_abs :: "real list \<Rightarrow> real" where
  "max_abs xs = Max (set (map abs xs))"

subsection \<open>Jacobian\<close>

text \<open>
  \<open>G = Y.real\<close>, \<open>B = Y.imag\<close>, \<open>c = cos(Va[k] - Va[m])\<close>, \<open>s = sin(Va[k] - Va[m])\<close>.
  The source fills each block by assignments \<open>H[ri, theta_cols.index(m)] = ...\<close> while
  \<open>m\<close> runs through the column list; both column lists are duplicate-free, so every
  entry of a row is written exactly once, and the block is the table of its entries.
\<close>

definition G_at :: "frame \<Rightarrow> int \<Rightarrow> int \<Rightarrow> real" where
  "G_at st k m = Re (getitem (getitem (f_Y st) k) m)"

definition B_at :: "frame \<Rightarrow> int \<Rightarrow> int \<Rightarrow> real" where
  "B_at st k m = Im (getitem (getitem (f_Y st) k) m)"

definition c_at :: "frame \<Rightarrow> int \<Rightarrow> int \<Rightarrow> real" where
  "c_at st k m = cos (getitem (f_Va st) k - getitem (f_Va st) m)"

definition s_at :: "frame \<Rightarrow> int \<Rightarrow> int \<Rightarrow> real" where
  "s_at st k m = sin (getitem (f_Va st) k - getitem (f_Va st) m)"

definition H_entry :: "frame \<Rightarrow> real list \<Rightarrow> int \<Rightarrow> int \<Rightarrow> real" where
  "H_entry st Qv k m =
     (let Vk = getitem (f_Vm st) k in
      if m = k then - getitem Qv k - (Vk\<^sup>2) * B_at st k k
      else Vk * getitem (f_Vm st) m * (G_at st k m * s_at st k m - B_at st k m * c_at st k m))"

definition N_entry :: "frame \<Rightarrow> real list \<Rightarrow> int \<Rightarrow> int \<Rightarrow> real" where
  "N_entry st Pv k m =
     (let Vk = getitem (f_Vm st) k in
      if m = k then (getitem Pv k / max Vk (1 / 10 ^ 12)) + Vk * G_at st k k
      else Vk * (G_at st k m * c_at st k m + B_at st k m * s_at st k m))"

definition M_entry :: "frame \<Rightarrow> real list \<Rightarrow> int \<Rightarrow> int \<Rightarrow> real" where
  "M_entry st Pv k m =
     (let Vk = getitem (f_Vm st) k in
      if m = k then getitem Pv k - (Vk\<^sup>2) * G_at st k k
      else - Vk * getitem (f_Vm st) m * (G_at st k m * c_at st k m + B_at st k m * s_at st k m))"

definition L_entry :: "frame \<Rightarrow> real list \<Rightarrow> int \<Rightarrow> int \<Rightarrow> real" where
  "L_entry st Qv k m =
     (let Vk = getitem (f_Vm st) k in
      if m = k then (getitem Qv k / max Vk (1 / 10 ^ 12)) - Vk * B_at st k k
      else Vk * (G_at st k m * s_at st k m - B_at st k m * c_at st k m))"

text \<open>\<open>np.block([[H, N], [M, L]])\<close>.\<close>

definition jacobian :: "frame \<Rightarrow> real list \<Rightarrow> real list \<Rightarrow> real list list" where
  "jacobian st Pv Qv =
     (let theta_cols = p_rows st;
          V_cols = q_rows st;
          H = map (\<lambda>k. map (H_entry st Qv k) theta_cols) (p_rows st);
          N = map (\<lambda>k. map (N_entry st Pv k) V_cols) (p_rows st);
          M = map (\<lambda>k. map (M_entry st Pv k) theta_cols) (q_rows st);
          L = map (\<lambda>k. map (L_entry st Qv k) V_cols) (q_rows st)
      in map2 (@) H N @ map2 (@) M L)"

subsection \<open>One Newton iteration\<close>

text \<open>\<open>xs[ks] += ds\<close> with an index list: numpy reads the old values, adds, and stores.\<close>

definition add_rows :: "real list \<Rightarrow> int list \<Rightarrow> real list \<Rightarrow> real list" where
  "add_rows xs ks ds =
     fold (\<lambda>(k, d) acc. acc[pos (length xs) k := getitem xs k + d]) (zip ks ds) xs"

text \<open>\<open>for k in PV_active: Vm[k] = network.buses[k].V\<close>.\<close>

definition reimpose :: "Network \<Rightarrow> int list \<Rightarrow> real list \<Rightarrow> real list" where
  "reimpose net ks vm =
     fold (\<lambda>k acc. acc[pos (length vm) k := bus_V (getitem (buses net) k)]) ks vm"

text \<open>
  The loop body, in source order: the injections; the limit pass (a subscript of
  \<open>PV_active\<close> out of range raises \<open>IndexError\<close>, the assertion can fail); the row lists;
  the mismatch (\<open>Q_spec[q_rows]\<close> raises \<open>IndexError\<close> on a subscript out of range);
  \<open>np.max\<close> (\<open>ValueError\<close> on an empty vector); the convergence test and its return; the
  Jacobian (\<open>theta_cols.index(k)\<close> raises \<open>ValueError\<close> for a row of \<open>q_rows\<close> that is
  not in \<open>p_rows\<close>); the linear solve; the two updates; the magnitudes re-imposed.
\<close>

definition iteration :: "lsolve \<Rightarrow> LoadFlow \<Rightarrow> nat \<Rightarrow> frame \<Rightarrow> step \<times> frame" where
  "iteration ls cfg it st0 =
     (let (Pv, Qv) = injections (f_Y st0) (f_Vm st0) (f_Va st0);
          st1 = st0\<lparr>f_PQ := Some (Pv, Qv)\<rparr>
      in case enforce_limits Qv (f_PV_active st1) st1 of
           (Raise e, st) \<Rightarrow> (Raise e, st)
         | (Return r, st) \<Rightarrow> (Return r, st)
         | (Continue, st) \<Rightarrow>
             if list_ex (\<lambda>k. py_index (f_n st) k = None) (q_rows st) then (Raise IndexError, st)
             else
               let mm = mismatch st Pv Qv in
               if mm = [] then (Raise ValueError, st)
               else if max_abs mm < tol cfg then
                 (Return \<lparr>res_Vm = f_Vm st, res_Va = f_Va st, res_P = Pv, res_Q = Qv,
                           iterations = int it, converged = True\<rparr>, st)
               else if list_ex (\<lambda>k. k \<notin> set (p_rows st)) (q_rows st) then (Raise ValueError, st)
               else
                 (case ls (jacobian st Pv Qv) mm of
                    Inl e \<Rightarrow> (Raise e, st)
                  | Inr dx \<Rightarrow>
                      let mP = length (p_rows st);
                          va = add_rows (f_Va st) (p_rows st) (take mP dx);
                          vm = add_rows (f_Vm st) (q_rows st) (drop mP dx);
                          vm' = reimpose (f_network st) (f_PV_active st) vm
                      in (Continue, st\<lparr>f_Va := va, f_Vm := vm'\<rparr>)))"

subsection \<open>The loop and \<open>solve\<close>\<close>

text \<open>\<open>for it in range(self.max_iter)\<close> followed by the final \<open>return\<close>, which reads the
  locals \<open>P\<close> and \<open>Q\<close>: they are unbound when the body never ran.\<close>

fun newton_loop :: "lsolve \<Rightarrow> LoadFlow \<Rightarrow> nat \<Rightarrow> nat \<Rightarrow> frame \<Rightarrow> (error + LoadFlowResult) \<times> frame" where
  "newton_loop ls cfg it 0 st =
     (case f_PQ st of
        None \<Rightarrow> (Inl UnboundLocalError, st)
      | Some (Pv, Qv) \<Rightarrow>
          (Inr \<lparr>res_Vm = f_Vm st, res_Va = f_Va st, res_P = Pv, res_Q = Qv,
                iterations = max_iter cfg, converged = False\<rparr>, st))"
| "newton_loop ls cfg it (Suc r) st =
     (case iteration ls cfg it st of
        (Raise e, st') \<Rightarrow> (Inl e, st')
      | (Return res, st') \<Rightarrow> (Inr res, st')
      | (Continue, st') \<Rightarrow> newton_loop ls cfg (Suc it) r st')"

text \<open>The locals as they stand when the loop is entered.\<close>

definition init_frame :: "Network \<Rightarrow> cmatrix \<Rightarrow> int \<Rightarrow> frame" where
  "init_frame net Y slack =
     \<lparr>f_network = net,
      f_Y = Y,
      f_n = nbus net,
      f_slack = slack,
      f_pv = pv_indices net,
      f_pq = pq_indices net,
      f_Vm = map bus_V (buses net),
      f_Va = map (\<lambda>b. deg2rad (bus_theta_deg b)) (buses net),
      f_P_spec = map bus_P (buses net),
      f_Q_spec = map (\<lambda>b. if bus_type b = PQ then bus_Q b else 0) (buses net),
      f_PV_active = remdups (pv_indices net),
      f_PV_conv = [],
      f_PQ = None\<rparr>"

text \<open>\<open>LoadFlow.solve\<close>, returning the result or the exception together with the
  \<open>Network\<close> object as it stands when the call ends.\<close>

definition solve_run :: "lsolve \<Rightarrow> LoadFlow \<Rightarrow> Network \<Rightarrow> (error + LoadFlowResult) \<times> Network" where
  "solve_run ls cfg net =
     (case build_ybus net of
        Inl e \<Rightarrow> (Inl e, net)
      | Inr Y \<Rightarrow>
          (case slack_index net of
             Inl e \<Rightarrow> (Inl e, net)
           | Inr slack \<Rightarrow>
               let (r, st) = newton_loop ls cfg 0 (nat (max_iter cfg)) (init_frame net Y slack)
               in (r, f_network st)))"

definition solve :: "lsolve \<Rightarrow> LoadFlow \<Rightarrow> Network \<Rightarrow> error + LoadFlowResult" where
  "solve ls cfg net = fst (solve_run ls cfg net)"

text \<open>The frame at the start of iteration \<open>it\<close>, when the iterations before it all ran to
  their end without returning or raising.\<close>

fun frame_at :: "lsolve \<Rightarrow> LoadFlow \<Rightarrow> frame \<Rightarrow> nat \<Rightarrow> frame option" where
  "frame_at ls cfg st0 0 = Some st0"
| "frame_at ls cfg st0 (Suc it) =
     (case frame_at ls cfg st0 it of
        None \<Rightarrow> None
      | Some st \<Rightarrow>
          (case iteration ls cfg it st of
             (Continue, st') \<Rightarrow> Some st'
           | _ \<Rightarrow> None))"

section \<open>Auxiliary notions\<close>

text \<open>\<open>Bus.__init__\<close>: the fields in argument order (the assertion on \<open>type\<close> holds for every
  value of \<open>BusType\<close>; \<open>idx\<close> is not checked).\<close>

definition Bus_init :: "int \<Rightarrow> BusType \<Rightarrow> real \<Rightarrow> real \<Rightarrow> real \<Rightarrow> real \<Rightarrow> real option \<Rightarrow> real option \<Rightarrow> Bus" where
  "Bus_init i t v th p q qmin qmax =
     \<lparr>bus_idx = i, bus_type = t, bus_V = v, bus_theta_deg = th, bus_P = p, bus_Q = q,
      bus_Qmin = qmin, bus_Qmax = qmax\<rparr>"

definition square :: "nat \<Rightarrow> cmatrix \<Rightarrow> bool" where
  "square n Y = (length Y = n \<and> list_all (\<lambda>row. length row = n) Y)"

definition symmetric :: "nat \<Rightarrow> cmatrix \<Rightarrow> bool" where
  "symmetric n Y = list_all (\<lambda>a. list_all (\<lambda>b. Y ! a ! b = Y ! b ! a) [0..<n]) [0..<n]"

text \<open>Both endpoints of a branch are subscripts of an \<open>n \<times> n\<close> array.\<close>

definition endpoints_ok :: "nat \<Rightarrow> Branch \<Rightarrow> bool" where
  "endpoints_ok n br = (py_index n (br_i br) \<noteq> None \<and> py_index n (br_j br) \<noteq> None)"

text \<open>The injections computed at the start of an iteration.\<close>

definition frame_PQ :: "frame \<Rightarrow> real list \<times> real list" where
  "frame_PQ st = injections (f_Y st) (f_Vm st) (f_Va st)"

text \<open>The limit enforcement pass of the iteration that starts in frame \<open>st\<close>, with the
  injections just computed.\<close>

definition limit_pass :: "frame \<Rightarrow> step \<times> frame" where
  "limit_pass st =
     enforce_limits (snd (frame_PQ st)) (f_PV_active st) (st\<lparr>f_PQ := Some (frame_PQ st)\<rparr>)"

text \<open>The mismatch vector \<open>[dP; dQ]\<close> of that iteration, when the limit pass has run to
  its end.\<close>

definition frame_mismatch :: "frame \<Rightarrow> real list" where
  "frame_mismatch st =
     mismatch (snd (limit_pass st)) (fst (frame_PQ st)) (snd (frame_PQ st))"

text \<open>The limit \<open>qlim\<close> of bus \<open>b\<close> is violated by the computed reactive power \<open>q\<close>, in the
  words of the specification: a lower limit is defined and \<open>q\<close> is below it, or an upper
  limit is defined and \<open>q\<close> is above it.\<close>

definition violates :: "Bus \<Rightarrow> real \<Rightarrow> real \<Rightarrow> bool" where
  "violates b q qlim = ((bus_Qmin b = Some qlim \<and> q < qlim) \<or> (bus_Qmax b = Some qlim \<and> q > qlim))"

text \<open>The two sets are disjoint and together hold the PV indices of the network.\<close>

definition pv_partition :: "Network \<Rightarrow> frame \<Rightarrow> bool" where
  "pv_partition net st =
     (set (f_PV_active st) \<inter> set (f_PV_conv st) = {} \<and>
      set (f_PV_active st) \<union> set (f_PV_conv st) = set (pv_indices net))"

text \<open>The frame belongs to a call of \<open>solve\<close> on the network \<open>net\<close>.\<close>

definition frame_wf :: "Network \<Rightarrow> frame \<Rightarrow> bool" where
  "frame_wf net st =
     (f_network st = net \<and> f_n st = nbus net \<and> length (f_Q_spec st) = nbus net)"

subsection \<open>An exact linear solver for the concrete runs\<close>

text \<open>Cramer's rule over the reals: on a nonsingular system it is the vector
  \<open>numpy.linalg.solve\<close> computes up to rounding, on a singular one \<open>LinAlgError\<close>.\<close>

definition remove_nth :: "nat \<Rightarrow> 'a list \<Rightarrow> 'a list" where
  "remove_nth j xs = take j xs @ drop (Suc j) xs"

function det :: "real list list \<Rightarrow> real" where
  "det [] = 1"
| "det (r # rs) =
     sum_list (map (\<lambda>j. (- 1) ^ j * (r ! j) * det (map (remove_nth j) rs)) [0..<length r])"
  by pat_completeness auto
termination
  by (relation "measure length") auto

definition linalg_solve :: lsolve where
  "linalg_solve A b =
     (let d = det A in
      if d = 0 then Inl LinAlgError
      else Inr (map (\<lambda>i. det (map2 (\<lambda>row bi. row[i := bi]) A b) / d) [0..<length b]))"

subsection \<open>Concrete networks\<close>

definition line01 :: Branch where
  "line01 = \<lparr>br_i = 0, br_j = 1, br_r = 0, br_x = 1, br_b = 0, br_tap = 1, br_shift_deg = 0\<rparr>"

definition net_line :: Network where
  "net_line =
     \<lparr>buses = [Bus_init 0 SLACK 1 0 0 0 None None, Bus_init 1 PQ 1 0 0 0 None None],
      branches = [line01], shunts = [], base_mva = 100\<rparr>"

definition net_two_slack :: Network where
  "net_two_slack =
     \<lparr>buses = [Bus_init 0 SLACK 1 0 0 0 None None, Bus_init 1 SLACK 1 0 0 0 None None],
      branches = [line01], shunts = [], base_mva = 100\<rparr>"

definition net_shunt :: Network where
  "net_shunt =
     \<lparr>buses = [Bus_init 0 SLACK 1 0 0 0 None None, Bus_init 1 PQ 1 0 0 0 None None],
      branches = [line01], shunts = [\<lparr>sh_k = 1, sh_g = 0, sh_b = 1\<rparr>], base_mva = 100\<rparr>"

definition short01 :: Branch where
  "short01 = \<lparr>br_i = 0, br_j = 1, br_r = 0, br_x = 0, br_b = 0, br_tap = 1, br_shift_deg = 0\<rparr>"

definition far05 :: Branch where
  "far05 = \<lparr>br_i = 0, br_j = 5, br_r = 1, br_x = 1, br_b = 0, br_tap = 1, br_shift_deg = 0\<rparr>"

definition net_short :: Network where
  "net_short =
     \<lparr>buses = [Bus_init 0 SLACK 1 0 0 0 None None, Bus_init 1 PQ 1 0 0 0 None None],
      branches = [line01, short01], shunts = [], base_mva = 100\<rparr>"

definition net_far_short :: Network where
  "net_far_short =
     \<lparr>buses = [Bus_init 0 SLACK 1 0 0 0 None None, Bus_init 1 PQ 1 0 0 0 None None],
      branches = [far05, short01], shunts = [], base_mva = 100\<rparr>"

definition net_pv :: Network where
  "net_pv =
     \<lparr>buses = [Bus_init 0 SLACK 1 0 0 0 None None, Bus_init 1 PV 1 0 2 0 None None],
      branches = [line01], shunts = [], base_mva = 100\<rparr>"

definition net_pv_limit :: Network where
  "net_pv_limit =
     \<lparr>buses = [Bus_init 0 SLACK 1 0 0 0 None None, Bus_init 1 PV 1 0 0 0 None (Some (- 1))],
      branches = [line01], shunts = [], base_mva = 100\<rparr>"

definition net_slack_idx :: Network where
  "net_slack_idx =
     \<lparr>buses = [Bus_init 2 SLACK 1 0 0 0 None None, Bus_init 1 PQ 1 0 0 0 None None],
      branches = [line01], shunts = [], base_mva = 100\<rparr>"

definition net_pq_idx :: Network where
  "net_pq_idx =
     \<lparr>buses = [Bus_init 0 SLACK 1 0 0 0 None None, Bus_init 5 PQ 1 0 0 0 None None],
      branches = [line01], shunts = [], base_mva = 100\<rparr>"

definition net_swapped :: Network where
  "net_swapped =
     \<lparr>buses = [Bus_init 1 PQ 1 0 0 (- 1 / 2) None None, Bus_init 0 SLACK 1 0 0 0 None None],
      branches = [line01], shunts = [], base_mva = 100\<rparr>"

subsection \<open>Concrete solver settings\<close>

definition cfg_default :: LoadFlow where
  "cfg_default = LoadFlow_init (1 / 10 ^ 8) 100 False"

definition cfg_one :: LoadFlow where
  "cfg_one = LoadFlow_init (1 / 10 ^ 8) 1 False"

definition cfg_zero_tol :: LoadFlow where
  "cfg_zero_tol = LoadFlow_init 0 1 False"

definition cfg_loose :: LoadFlow where
  "cfg_loose = LoadFlow_init 2 100 False"

text \<open>The admittance matrix of the single lossless line of these networks.\<close>

definition Y_line :: cmatrix where
  "Y_line = [[- \<i>, \<i>], [\<i>, - \<i>]]"


section \<open>Slack lookup\<close>

text \<open>
  Claim C4, as amended. The slack lookup fails, with \<open>StopIteration\<close>, exactly when the
  network has no Slack-type bus. As soon as there is one it returns the \<open>idx\<close> of the
  first Slack-type bus of the bus list, whether or not further Slack-type buses follow.
\<close>

theorem slack_index_first_slack:
  "((\<forall>b\<in>set (buses net). bus_type b \<noteq> SLACK) \<longrightarrow> slack_index net = Inl StopIteration) \<and>
   (\<forall>pre b post. buses net = pre @ b # post \<and> bus_type b = SLACK \<and>
        (\<forall>b'\<in>set pre. bus_type b' \<noteq> SLACK)
      \<longrightarrow> slack_index net = Inr (bus_idx b))"
  by (auto simp: slack_index_def filter_empty_conv split: list.splits)

theorem slack_index_first_slack_witness:
  "buses net_two_slack = [] @ Bus_init 0 SLACK 1 0 0 0 None None # [Bus_init 1 SLACK 1 0 0 0 None None] \<and>
   bus_type (Bus_init 0 SLACK 1 0 0 0 None None) = SLACK \<and>
   slack_index net_two_slack = Inr 0"
proof -
  have h: "buses net_two_slack =
      [] @ Bus_init 0 SLACK 1 0 0 0 None None # [Bus_init 1 SLACK 1 0 0 0 None None]"
    by (simp add: net_two_slack_def)
  have t: "bus_type (Bus_init 0 SLACK 1 0 0 0 None None) = SLACK"
    by (simp add: Bus_init_def)
  have "slack_index net_two_slack = Inr (bus_idx (Bus_init 0 SLACK 1 0 0 0 None None))"
    using slack_index_first_slack [of net_two_slack] h t by fastforce
  then show ?thesis using h t by (simp add: Bus_init_def)
qed

text \<open>A network with two Slack-type buses on which the lookup does not fail.\<close>

theorem slack_index_two_slack_counterexample:
  "length (filter (\<lambda>b. bus_type b = SLACK) (buses net_two_slack)) = 2 \<and>
   slack_index net_two_slack = Inr 0"
  by (simp add: net_two_slack_def slack_index_def Bus_init_def)

section \<open>Admittance matrix: shape and symmetry\<close>

lemma py_index_less: "py_index n k = Some p \<Longrightarrow> p < n"
  by (auto simp: py_index_def split: if_splits)

lemma symmetric_iff: "symmetric n Y \<longleftrightarrow> (\<forall>a<n. \<forall>b<n. Y ! a ! b = Y ! b ! a)"
  by (auto simp: symmetric_def list_all_iff)

lemma square_mat_add: "square n Y \<Longrightarrow> square n (mat_add Y a b v)"
  by (cases "a < length Y") (auto simp: square_def mat_add_def list_all_length nth_list_update)

lemma mat_add_nth:
  "square n Y \<Longrightarrow> a < n \<Longrightarrow> b < n \<Longrightarrow> u < n \<Longrightarrow> w < n \<Longrightarrow>
   mat_add Y a b v ! u ! w = (if u = a \<and> w = b then Y ! a ! b + v else Y ! u ! w)"
  by (auto simp: mat_add_def square_def list_all_length nth_list_update)

lemma symmetric_diag:
  "square n Y \<Longrightarrow> symmetric n Y \<Longrightarrow> a < n \<Longrightarrow> symmetric n (mat_add Y a a v)"
  by (auto simp: symmetric_iff mat_add_nth)

lemma mat_add2_nth:
  assumes sq: "square n Y" and a: "a < n" and b: "b < n" and u: "u < n" and w: "w < n"
  shows "mat_add (mat_add Y a b v) b a v ! u ! w =
     Y ! u ! w + (if u = a \<and> w = b then v else 0) + (if u = b \<and> w = a then v else 0)"
proof -
  have sq1: "square n (mat_add Y a b v)" using sq by (rule square_mat_add)
  have s1: "mat_add (mat_add Y a b v) b a v ! u ! w =
      (if u = b \<and> w = a then mat_add Y a b v ! b ! a + v else mat_add Y a b v ! u ! w)"
    by (rule mat_add_nth [OF sq1 b a u w])
  have s2: "mat_add Y a b v ! b ! a = (if b = a \<and> a = b then Y ! a ! b + v else Y ! b ! a)"
    by (rule mat_add_nth [OF sq a b b a])
  have s3: "mat_add Y a b v ! u ! w = (if u = a \<and> w = b then Y ! a ! b + v else Y ! u ! w)"
    by (rule mat_add_nth [OF sq a b u w])
  show ?thesis unfolding s1 s2 s3 by (cases "u = a"; cases "w = b"; cases "a = b") simp_all
qed

lemma symmetric_pair:
  assumes sq: "square n Y" and sy: "symmetric n Y" and a: "a < n" and b: "b < n"
  shows "symmetric n (mat_add (mat_add Y a b v) b a v)"
  unfolding symmetric_iff
proof (intro allI impI)
  fix u w assume u: "u < n" and w: "w < n"
  have e1: "Y ! u ! w = Y ! w ! u"
    using sy u w by (simp add: symmetric_iff)
  show "mat_add (mat_add Y a b v) b a v ! u ! w = mat_add (mat_add Y a b v) b a v ! w ! u"
    unfolding mat_add2_nth [OF sq a b u w] mat_add2_nth [OF sq a b w u]
    by (simp only: e1) (simp add: conj_commute)
qed

lemma branch_stamp_unity_eq:
  "br_tap br = 1 \<Longrightarrow> br_shift_deg br = 0 \<Longrightarrow> branch_stamp n Y br = pi_model_stamp n Y br"
  by (simp add: branch_stamp_def pi_model_stamp_def deg2rad_def Let_def)

lemma pi_model_sym:
  assumes "square n Y" "symmetric n Y" "pi_model_stamp n Y br = Inr Y'"
  shows "square n Y' \<and> symmetric n Y'"
  using assms
  by (auto simp: pi_model_stamp_def Let_def ebind_def add_at_def square_mat_add
      symmetric_diag symmetric_pair dest!: py_index_less split: if_splits option.splits sum.splits)

lemma stamp_branches_sym:
  "square n Y \<Longrightarrow> symmetric n Y \<Longrightarrow>
   list_all (\<lambda>br. br_tap br = 1 \<and> br_shift_deg br = 0) brs \<Longrightarrow>
   stamp_branches n Y brs = Inr Y' \<Longrightarrow> square n Y' \<and> symmetric n Y'"
proof (induction brs arbitrary: Y)
  case Nil
  then show ?case by simp
next
  case (Cons br brs)
  from Cons.prems obtain Y1 where s1: "branch_stamp n Y br = Inr Y1"
    and rest: "stamp_branches n Y1 brs = Inr Y'"
    by (auto split: sum.splits)
  from Cons.prems have "pi_model_stamp n Y br = Inr Y1"
    using s1 by (simp add: branch_stamp_unity_eq)
  then have "square n Y1 \<and> symmetric n Y1"
    using Cons.prems pi_model_sym by blast
  then show ?case using Cons.IH [of Y1] Cons.prems rest by simp
qed

lemma stamp_shunts_sym:
  "square n Y \<Longrightarrow> symmetric n Y \<Longrightarrow> stamp_shunts n Y shs = Inr Y' \<Longrightarrow>
   square n Y' \<and> symmetric n Y'"
proof (induction shs arbitrary: Y)
  case Nil
  then show ?case by simp
next
  case (Cons sh shs)
  from Cons.prems obtain Y1 where s1: "shunt_stamp n Y sh = Inr Y1"
    and rest: "stamp_shunts n Y1 shs = Inr Y'"
    by (auto split: sum.splits)
  have "square n Y1 \<and> symmetric n Y1"
    using s1 Cons.prems(1,2)
    by (auto simp: shunt_stamp_def add_at_def square_mat_add symmetric_diag
        dest!: py_index_less split: option.splits)
  then show ?case using Cons.IH [of Y1] rest by simp
qed

lemma zero_square: "square n (replicate n (replicate n 0))"
  by (simp add: square_def list_all_length)

lemma zero_symmetric: "symmetric n (replicate n (replicate n 0))"
  by (simp add: symmetric_iff)

lemma inverse_Complex_0_1: "1 / Complex 0 1 = - \<i>"
proof -
  have "Complex 0 1 = \<i>" by (simp add: complex_eq_iff)
  then show ?thesis by simp
qed

lemma build_ybus_net_line: "build_ybus net_line = Inr Y_line"
  by (simp add: build_ybus_def net_line_def nbus_def Bus_init_def line01_def branch_stamp_def
      Let_def ebind_def add_at_def py_index_def mat_add_def deg2rad_def Y_line_def
      numeral_2_eq_2 inverse_Complex_0_1 Complex_eq_0)

text \<open>
  Claim C6. For a branch with \<open>tap = 1\<close> and \<open>shift_deg = 0\<close> the loop body of
  \<open>build_ybus\<close> does to the matrix exactly what the untransformed pi-model does: it adds
  \<open>y + ySh\<close> to \<open>Y[i,i]\<close> and to \<open>Y[j,j]\<close> and \<open>-y\<close> to \<open>Y[i,j]\<close> and to \<open>Y[j,i]\<close>, with
  \<open>y = 1/(r + jx)\<close> and \<open>ySh = j b/2\<close> (and it fails where the pi-model fails).
\<close>

theorem branch_stamp_unity_pi_model:
  assumes "br_tap br = 1" and "br_shift_deg br = 0"
  shows "branch_stamp n Y br = pi_model_stamp n Y br"
  using assms by (simp add: branch_stamp_def pi_model_stamp_def deg2rad_def Let_def)

theorem branch_stamp_unity_pi_model_witness:
  "br_tap line01 = 1 \<and> br_shift_deg line01 = 0 \<and>
   branch_stamp 2 [[0, 0], [0, 0]] line01 = Inr [[- \<i>, \<i>], [\<i>, - \<i>]]"
proof -
  have h1: "br_tap line01 = 1" and h2: "br_shift_deg line01 = 0"
    by (simp_all add: line01_def)
  have "pi_model_stamp 2 [[0, 0], [0, 0]] line01 = Inr [[- \<i>, \<i>], [\<i>, - \<i>]]"
    by (simp add: pi_model_stamp_def line01_def Let_def ebind_def add_at_def py_index_def
        mat_add_def inverse_Complex_0_1 Complex_eq_0)
  then show ?thesis
    using branch_stamp_unity_pi_model [OF h1 h2, of 2 "[[0, 0], [0, 0]]"] h1 h2 by simp
qed

text \<open>
  Claim C7. When every branch of the network has \<open>tap = 1\<close> and \<open>shift_deg = 0\<close>
  (shunts are arbitrary), the matrix returned by \<open>build_ybus\<close> is symmetric:
  \<open>Y[i,j] = Y[j,i]\<close> for all \<open>i\<close>, \<open>j\<close> below the bus count.
\<close>

theorem build_ybus_symmetric:
  assumes "build_ybus net = Inr Y"
    and "\<forall>br\<in>set (branches net). br_tap br = 1 \<and> br_shift_deg br = 0"
    and "i < nbus net" and "j < nbus net"
  shows "Y ! i ! j = Y ! j ! i"
proof -
  let ?n = "nbus net"
  from assms(1) obtain Y1
    where b: "stamp_branches ?n (replicate ?n (replicate ?n 0)) (branches net) = Inr Y1"
      and s: "stamp_shunts ?n Y1 (shunts net) = Inr Y"
    by (auto simp: build_ybus_def Let_def ebind_def split: sum.splits)
  have "list_all (\<lambda>br. br_tap br = 1 \<and> br_shift_deg br = 0) (branches net)"
    using assms(2) by (simp add: list_all_iff)
  then have "square ?n Y1 \<and> symmetric ?n Y1"
    using stamp_branches_sym [OF zero_square zero_symmetric _ b] by simp
  then have "symmetric ?n Y"
    using stamp_shunts_sym s by blast
  then show ?thesis using assms(3,4) by (simp add: symmetric_iff)
qed

theorem build_ybus_symmetric_witness:
  "build_ybus net_shunt = Inr [[- \<i>, \<i>], [\<i>, 0]] \<and>
   list_all (\<lambda>br. br_tap br = 1 \<and> br_shift_deg br = 0) (branches net_shunt) \<and>
   (0::nat) < nbus net_shunt \<and> (1::nat) < nbus net_shunt \<and>
   [[- \<i>, \<i>], [\<i>, 0]] ! 0 ! 1 = [[- \<i>, \<i>], [\<i>, 0 :: complex]] ! 1 ! 0"
proof -
  have h1: "build_ybus net_shunt = Inr [[- \<i>, \<i>], [\<i>, 0]]"
    by (simp add: build_ybus_def net_shunt_def nbus_def Bus_init_def line01_def branch_stamp_def
        shunt_stamp_def Let_def ebind_def add_at_def py_index_def mat_add_def deg2rad_def
        numeral_2_eq_2 inverse_Complex_0_1 Complex_eq_0 complex_eq_iff)
  have h2: "\<forall>br\<in>set (branches net_shunt). br_tap br = 1 \<and> br_shift_deg br = 0"
    by (simp add: net_shunt_def line01_def)
  have h3: "(0::nat) < nbus net_shunt" and h4: "(1::nat) < nbus net_shunt"
    by (simp_all add: net_shunt_def nbus_def)
  show ?thesis
    using build_ybus_symmetric [OF h1 h2 h3 h4] h1 h2 h3 h4 by (simp add: list_all_iff)
qed

section \<open>Zero-impedance branches\<close>

lemma branch_stamp_zero:
  "br_r br = 0 \<Longrightarrow> br_x br = 0 \<Longrightarrow> branch_stamp n Y br = Inl ZeroDivisionError"
  by (simp add: branch_stamp_def Let_def zero_complex.code)

lemma stamp_branches_fail:
  "br_r br = 0 \<Longrightarrow> br_x br = 0 \<Longrightarrow> \<exists>e. stamp_branches n Y (pre @ br # post) = Inl e"
  by (induction pre arbitrary: Y) (auto simp: branch_stamp_zero split: sum.splits)

lemma branch_stamp_in_range:
  "endpoints_ok n br \<Longrightarrow> branch_stamp n Y br = Inl e \<Longrightarrow> e = ZeroDivisionError"
  by (auto simp: endpoints_ok_def branch_stamp_def Let_def ebind_def add_at_def
      split: if_splits option.splits sum.splits)

lemma stamp_branches_zero_div:
  "br_r br = 0 \<Longrightarrow> br_x br = 0 \<Longrightarrow> list_all (endpoints_ok n) pre \<Longrightarrow>
   stamp_branches n Y (pre @ br # post) = Inl ZeroDivisionError"
proof (induction pre arbitrary: Y)
  case Nil
  then show ?case by (simp add: branch_stamp_zero)
next
  case (Cons a pre)
  show ?case
  proof (cases "branch_stamp n Y a")
    case (Inl e)
    then have "e = ZeroDivisionError" using Cons.prems branch_stamp_in_range by auto
    then show ?thesis using Inl by simp
  next
    case (Inr Y1)
    then show ?thesis using Cons by simp
  qed
qed

text \<open>
  Claim C9, as amended. \<open>Branch.__init__\<close> accepts \<open>r = 0\<close> together with \<open>x = 0\<close> (its
  other assertions holding), and \<open>build_ybus\<close> never returns a matrix for a network that
  contains a zero-impedance branch: it fails. The failure is the division by zero whenever
  the branches in front of the zero-impedance branch have their endpoints inside the matrix;
  a branch in front with an endpoint outside fails first, with \<open>IndexError\<close>.
\<close>

theorem build_ybus_zero_impedance:
  assumes "branches net = pre @ br # post" and "br_r br = 0" and "br_x br = 0"
  shows "(\<exists>e. build_ybus net = Inl e) \<and>
         (list_all (endpoints_ok (nbus net)) pre \<longrightarrow> build_ybus net = Inl ZeroDivisionError) \<and>
         (0 \<le> i \<and> 0 \<le> j \<and> i \<noteq> j \<and> 0 \<le> b \<and> 0 \<le> t \<and> 0 \<le> s \<and> s \<le> 360 \<longrightarrow>
            Branch_init i j 0 0 b t s =
              Inr \<lparr>br_i = i, br_j = j, br_r = 0, br_x = 0, br_b = b, br_tap = t, br_shift_deg = s\<rparr>)"
proof -
  obtain e where "stamp_branches (nbus net) (replicate (nbus net) (replicate (nbus net) 0))
      (branches net) = Inl e"
    using stamp_branches_fail [OF assms(2,3)] assms(1) by metis
  then have 1: "\<exists>e. build_ybus net = Inl e"
    by (simp add: build_ybus_def Let_def ebind_def)
  have 2: "list_all (endpoints_ok (nbus net)) pre \<Longrightarrow> build_ybus net = Inl ZeroDivisionError"
    using stamp_branches_zero_div [OF assms(2,3)] assms(1)
    by (simp add: build_ybus_def Let_def ebind_def)
  have 3: "0 \<le> i \<and> 0 \<le> j \<and> i \<noteq> j \<and> 0 \<le> b \<and> 0 \<le> t \<and> 0 \<le> s \<and> s \<le> 360 \<Longrightarrow>
      Branch_init i j 0 0 b t s =
        Inr \<lparr>br_i = i, br_j = j, br_r = 0, br_x = 0, br_b = b, br_tap = t, br_shift_deg = s\<rparr>"
    by (simp add: Branch_init_def)
  show ?thesis using 1 2 3 by blast
qed

theorem build_ybus_zero_impedance_witness:
  "branches net_short = [line01] @ short01 # [] \<and> br_r short01 = 0 \<and> br_x short01 = 0 \<and>
   list_all (endpoints_ok (nbus net_short)) [line01] \<and>
   build_ybus net_short = Inl ZeroDivisionError \<and>
   Branch_init 0 1 0 0 0 1 0 = Inr short01"
proof -
  have h1: "branches net_short = [line01] @ short01 # []"
    by (simp add: net_short_def)
  have h2: "br_r short01 = 0" and h3: "br_x short01 = 0"
    by (simp_all add: short01_def)
  have h4: "list_all (endpoints_ok (nbus net_short)) [line01]"
    by (simp add: endpoints_ok_def net_short_def nbus_def line01_def py_index_def)
  show ?thesis
    using build_ybus_zero_impedance [OF h1 h2 h3, of 0 1 0 1 0] h1 h2 h3 h4
    by (simp add: short01_def)
qed

text \<open>A network with a zero-impedance branch on which \<open>build_ybus\<close> does not fail with a
  division by zero: the branch in front of it names bus 5 of a two-bus network.\<close>

theorem build_ybus_zero_impedance_counterexample:
  "short01 \<in> set (branches net_far_short) \<and> br_r short01 = 0 \<and> br_x short01 = 0 \<and>
   build_ybus net_far_short = Inl IndexError"
  by (simp add: build_ybus_def net_far_short_def nbus_def Bus_init_def far05_def short01_def
      branch_stamp_def Let_def ebind_def add_at_def py_index_def mat_add_def deg2rad_def
      numeral_2_eq_2 Complex_eq_0)

section \<open>The limit enforcement pass\<close>


lemma violated_Some: "violated b q = Some l \<Longrightarrow> violates b q l"
  by (auto simp: violated_def violates_def split: option.splits if_splits)

lemma violated_None: "violated b q = None \<Longrightarrow> \<not> violates b q l"
  by (auto simp: violated_def violates_def split: option.splits if_splits)

lemma enforce_one_cases:
  assumes "enforce_one Qv k st = (r, st')"
  shows "(py_index (f_n st) k = None \<and> r = Raise IndexError \<and> st' = st) \<or>
     (\<exists>p. py_index (f_n st) k = Some p \<and> violated (buses (f_network st) ! p) (Qv ! p) = None \<and>
          r = Continue \<and> st' = st) \<or>
     (\<exists>p q. py_index (f_n st) k = Some p \<and> violated (buses (f_network st) ! p) (Qv ! p) = Some q \<and>
          st' = convert k p q st \<and> (r = Continue \<or> r = Raise AssertionError))"
  using assms by (auto simp: enforce_one_def Let_def split: option.splits if_splits)

lemma enforce_one_fields:
  assumes "enforce_one Qv k st = (r, st')"
  shows "f_network st' = f_network st \<and> f_n st' = f_n st \<and> f_Y st' = f_Y st \<and>
     f_slack st' = f_slack st \<and> f_pq st' = f_pq st \<and> f_pv st' = f_pv st \<and>
     f_Vm st' = f_Vm st \<and> f_Va st' = f_Va st \<and> f_P_spec st' = f_P_spec st \<and>
     f_PQ st' = f_PQ st \<and> length (f_Q_spec st') = length (f_Q_spec st)"
  using enforce_one_cases [OF assms] by (auto simp: convert_def)

lemma enforce_limits_fields:
  "enforce_limits Qv ks st = (r, st') \<Longrightarrow>
   f_network st' = f_network st \<and> f_n st' = f_n st \<and> f_Y st' = f_Y st \<and>
     f_slack st' = f_slack st \<and> f_pq st' = f_pq st \<and> f_pv st' = f_pv st \<and>
     f_Vm st' = f_Vm st \<and> f_Va st' = f_Va st \<and> f_P_spec st' = f_P_spec st \<and>
     f_PQ st' = f_PQ st \<and> length (f_Q_spec st') = length (f_Q_spec st)"
proof (induction ks arbitrary: st)
  case Nil
  then show ?case by simp
next
  case (Cons k ks)
  obtain r1 st1 where e: "enforce_one Qv k st = (r1, st1)" by fastforce
  note f = enforce_one_fields [OF e]
  show ?case
  proof (cases "r1 = Continue")
    case True
    then have "enforce_limits Qv ks st1 = (r, st')" using Cons.prems e by simp
    from Cons.IH [OF this] f show ?thesis by simp
  next
    case False
    then have "st' = st1" using Cons.prems e by (cases r1) auto
    then show ?thesis using f by simp
  qed
qed

lemma enforce_one_sets:
  assumes "enforce_one Qv k st = (r, st')"
  shows "set (f_PV_active st') \<subseteq> set (f_PV_active st) \<and>
     set (f_PV_conv st) \<subseteq> set (f_PV_conv st') \<and>
     set (f_PV_active st) \<union> set (f_PV_conv st) \<subseteq> set (f_PV_active st') \<union> set (f_PV_conv st') \<and>
     set (f_PV_active st') \<union> set (f_PV_conv st') \<subseteq> insert k (set (f_PV_active st) \<union> set (f_PV_conv st)) \<and>
     (set (f_PV_active st) \<inter> set (f_PV_conv st) = {} \<longrightarrow>
        set (f_PV_active st') \<inter> set (f_PV_conv st') = {})"
  using enforce_one_cases [OF assms] by (auto simp: convert_def)

lemma enforce_limits_sets:
  "enforce_limits Qv ks st = (r, st') \<Longrightarrow>
   set (f_PV_active st') \<subseteq> set (f_PV_active st) \<and>
     set (f_PV_conv st) \<subseteq> set (f_PV_conv st') \<and>
     set (f_PV_active st) \<union> set (f_PV_conv st) \<subseteq> set (f_PV_active st') \<union> set (f_PV_conv st') \<and>
     set (f_PV_active st') \<union> set (f_PV_conv st') \<subseteq> set ks \<union> (set (f_PV_active st) \<union> set (f_PV_conv st)) \<and>
     (set (f_PV_active st) \<inter> set (f_PV_conv st) = {} \<longrightarrow>
        set (f_PV_active st') \<inter> set (f_PV_conv st') = {})"
proof (induction ks arbitrary: st)
  case Nil
  then show ?case by simp
next
  case (Cons k ks)
  obtain r1 st1 where e: "enforce_one Qv k st = (r1, st1)" by fastforce
  note f = enforce_one_sets [OF e]
  show ?case
  proof (cases "r1 = Continue")
    case True
    then have "enforce_limits Qv ks st1 = (r, st')" using Cons.prems e by simp
    from Cons.IH [OF this] f show ?thesis by auto
  next
    case False
    then have "st' = st1" using Cons.prems e by (cases r1) auto
    then show ?thesis using f by auto
  qed
qed


lemma enforce_one_Q_spec:
  assumes "enforce_one Qv k st = (r, st')" and "p < length (f_Q_spec st)"
  shows "f_Q_spec st' ! p = f_Q_spec st ! p \<or>
         violated (buses (f_network st) ! p) (Qv ! p) = Some (f_Q_spec st' ! p)"
proof -
  from enforce_one_cases [OF assms(1)]
  consider (same) "st' = st"
    | (conv) a q where "violated (buses (f_network st) ! a) (Qv ! a) = Some q"
        "st' = convert k a q st"
    by blast
  then show ?thesis
  proof cases
    case same
    then show ?thesis by simp
  next
    case conv
    show ?thesis
    proof (cases "a = p")
      case True
      then show ?thesis using conv assms(2) by (simp add: convert_def)
    next
      case False
      then show ?thesis using conv by (simp add: convert_def)
    qed
  qed
qed

lemma enforce_limits_Q_spec:
  "enforce_limits Qv ks st = (r, st') \<Longrightarrow> p < length (f_Q_spec st) \<Longrightarrow>
   f_Q_spec st' ! p = f_Q_spec st ! p \<or>
   violated (buses (f_network st) ! p) (Qv ! p) = Some (f_Q_spec st' ! p)"
proof (induction ks arbitrary: st)
  case Nil
  then show ?case by simp
next
  case (Cons k ks)
  obtain r1 st1 where e: "enforce_one Qv k st = (r1, st1)" by fastforce
  note f = enforce_one_fields [OF e]
  note q = enforce_one_Q_spec [OF e Cons.prems(2)]
  show ?case
  proof (cases "r1 = Continue")
    case True
    then have l: "enforce_limits Qv ks st1 = (r, st')" using Cons.prems e by simp
    have "p < length (f_Q_spec st1)" using f Cons.prems(2) by simp
    from Cons.IH [OF l this] q f show ?thesis by auto
  next
    case False
    then have "st' = st1" using Cons.prems e by (cases r1) auto
    then show ?thesis using q by simp
  qed
qed

lemma enforce_limits_transition:
  "enforce_limits Qv ks st = (r, st') \<Longrightarrow> length (f_Q_spec st) = f_n st \<Longrightarrow>
   k \<in> set (f_PV_active st) \<Longrightarrow> k \<notin> set (f_PV_active st') \<Longrightarrow>
   \<exists>p. py_index (f_n st) k = Some p \<and>
       violated (buses (f_network st) ! p) (Qv ! p) = Some (f_Q_spec st' ! p)"
proof (induction ks arbitrary: st)
  case Nil
  then show ?case by simp
next
  case (Cons a ks)
  obtain r1 st1 where e: "enforce_one Qv a st = (r1, st1)" by fastforce
  note f = enforce_one_fields [OF e]
  have rest: "r1 \<noteq> Continue \<Longrightarrow> st' = st1"
    using Cons.prems(1) e by (cases r1) auto
  have cont: "r1 = Continue \<Longrightarrow> enforce_limits Qv ks st1 = (r, st')"
    using Cons.prems(1) e by simp
  show ?case
  proof (cases "k \<in> set (f_PV_active st1)")
    case True
    then have "r1 = Continue" using rest Cons.prems(4) by auto
    from Cons.IH [OF cont [OF this] _ True Cons.prems(4)] f Cons.prems(2)
    show ?thesis by simp
  next
    case False
    from enforce_one_cases [OF e]
    consider (same) "st1 = st"
      | (conv) p q where "py_index (f_n st) a = Some p"
          "violated (buses (f_network st) ! p) (Qv ! p) = Some q" "st1 = convert a p q st"
      by blast
    then obtain p q where p: "py_index (f_n st) a = Some p"
      and v: "violated (buses (f_network st) ! p) (Qv ! p) = Some q"
      and st1: "st1 = convert a p q st"
    proof cases
      case same
      then show ?thesis using False Cons.prems(3) by simp
    next
      case conv
      then show ?thesis using that by blast
    qed
    have ak: "a = k"
    proof (rule ccontr)
      assume "a \<noteq> k"
      then have "k \<in> set (f_PV_active st1)"
        using st1 Cons.prems(3) by (simp add: convert_def)
      then show False using False by simp
    qed
    have pl: "p < length (f_Q_spec st)"
      using p Cons.prems(2) by (auto simp: py_index_def split: if_splits)
    then have q1: "f_Q_spec st1 ! p = q" using st1 by (simp add: convert_def)
    have "f_Q_spec st' ! p = q"
    proof (cases "r1 = Continue")
      case True
      have "p < length (f_Q_spec st1)" using pl f by simp
      from enforce_limits_Q_spec [OF cont [OF True] this] q1 v f show ?thesis by auto
    next
      case False
      then show ?thesis using rest q1 by simp
    qed
    then show ?thesis using p v ak by auto
  qed
qed

lemma enforce_limits_complete:
  "enforce_limits Qv ks st = (Continue, st') \<Longrightarrow> k \<in> set ks \<Longrightarrow>
   py_index (f_n st) k = Some p \<Longrightarrow> violated (buses (f_network st) ! p) (Qv ! p) \<noteq> None \<Longrightarrow>
   k \<notin> set (f_PV_active st')"
proof (induction ks arbitrary: st)
  case Nil
  then show ?case by simp
next
  case (Cons a ks)
  obtain r1 st1 where e: "enforce_one Qv a st = (r1, st1)" by fastforce
  note f = enforce_one_fields [OF e]
  have r1: "r1 = Continue" using Cons.prems(1) e by (cases r1) auto
  then have l: "enforce_limits Qv ks st1 = (Continue, st')" using Cons.prems(1) e by simp
  note m = enforce_limits_sets [OF l]
  show ?case
  proof (cases "a = k")
    case True
    then have "k \<notin> set (f_PV_active st1)"
      using enforce_one_cases [OF e] Cons.prems(3,4) by (auto simp: convert_def)
    then show ?thesis using m by auto
  next
    case False
    then have "k \<in> set ks" using Cons.prems(2) by simp
    from Cons.IH [OF l this] Cons.prems(3,4) f show ?thesis by simp
  qed
qed

lemma enforce_limits_result:
  "enforce_limits Qv ks st = (r, st') \<Longrightarrow>
   r = Continue \<or> r = Raise IndexError \<or> r = Raise AssertionError"
proof (induction ks arbitrary: st)
  case Nil
  then show ?case by simp
next
  case (Cons a ks)
  obtain r1 st1 where e: "enforce_one Qv a st = (r1, st1)" by fastforce
  show ?case
  proof (cases "r1 = Continue")
    case True
    then show ?thesis using Cons e by simp
  next
    case False
    then have "r = r1" using Cons.prems e by (cases r1) auto
    then show ?thesis using enforce_one_cases [OF e] by auto
  qed
qed

lemma enforce_limits_out_of_range:
  "enforce_limits Qv ks st = (r, st') \<Longrightarrow> k \<in> set ks \<Longrightarrow> py_index (f_n st) k = None \<Longrightarrow>
   r \<noteq> Continue"
proof (induction ks arbitrary: st)
  case Nil
  then show ?case by simp
next
  case (Cons a ks)
  obtain r1 st1 where e: "enforce_one Qv a st = (r1, st1)" by fastforce
  note f = enforce_one_fields [OF e]
  show ?case
  proof (cases "r1 = Continue")
    case True
    then have l: "enforce_limits Qv ks st1 = (r, st')" using Cons.prems e by simp
    have "a \<noteq> k" using True enforce_one_cases [OF e] Cons.prems(3) by auto
    then have "k \<in> set ks" using Cons.prems(2) by simp
    from Cons.IH [OF l this] Cons.prems(3) f show ?thesis by simp
  next
    case False
    then have "r = r1" using Cons.prems e by (cases r1) auto
    then show ?thesis using False by simp
  qed
qed

section \<open>One iteration\<close>


lemma iteration_enforce:
  assumes "iteration ls cfg it st = (r, st')"
  shows "\<exists>r0 st2. enforce_limits (snd (frame_PQ st)) (f_PV_active st)
            (st\<lparr>f_PQ := Some (frame_PQ st)\<rparr>) = (r0, st2) \<and>
        f_PV_active st' = f_PV_active st2 \<and> f_PV_conv st' = f_PV_conv st2 \<and>
        f_Q_spec st' = f_Q_spec st2 \<and> f_network st' = f_network st2 \<and>
        f_n st' = f_n st2 \<and> f_PQ st' = f_PQ st2 \<and> f_pq st' = f_pq st2 \<and>
        (r0 = Continue \<or> (r = r0 \<and> st' = st2))"
  using assms
  by (auto simp: iteration_def frame_PQ_def Let_def
      split: prod.splits step.splits if_splits sum.splits)

lemma max_abs_nonneg: "xs \<noteq> [] \<Longrightarrow> 0 \<le> max_abs xs"
proof -
  assume "xs \<noteq> []"
  then obtain x where "x \<in> set xs" by (cases xs) auto
  then have "\<bar>x\<bar> \<le> Max (set (map abs xs))" by (intro Max_ge) auto
  then show ?thesis unfolding max_abs_def by linarith
qed

lemma iteration_Return:
  assumes "iteration ls cfg it st = (Return res, st')"
  shows "converged res \<and> iterations res = int it \<and> res_Vm res = f_Vm st' \<and>
     res_Va res = f_Va st' \<and> (res_P res, res_Q res) = frame_PQ st \<and>
     mismatch st' (res_P res) (res_Q res) \<noteq> [] \<and>
     max_abs (mismatch st' (res_P res) (res_Q res)) < tol cfg"
proof -
  obtain Pv Qv where pq: "frame_PQ st = (Pv, Qv)" by fastforce
  obtain r0 st2 where e: "enforce_limits Qv (f_PV_active st) (st\<lparr>f_PQ := Some (Pv, Qv)\<rparr>) = (r0, st2)"
    by fastforce
  have "r0 \<noteq> Return res" for res using enforce_limits_result [OF e] by auto
  then show ?thesis
    using assms pq e unfolding iteration_def frame_PQ_def
    by (auto simp: Let_def split: prod.splits step.splits if_splits sum.splits)
qed

lemma iteration_converges:
  assumes "enforce_limits (snd (frame_PQ st)) (f_PV_active st) (st\<lparr>f_PQ := Some (frame_PQ st)\<rparr>)
      = (Continue, st2)"
    and "list_all (\<lambda>k. py_index (f_n st2) k \<noteq> None) (q_rows st2)"
    and "mismatch st2 (fst (frame_PQ st)) (snd (frame_PQ st)) \<noteq> []"
    and "max_abs (mismatch st2 (fst (frame_PQ st)) (snd (frame_PQ st))) < tol cfg"
  shows "iteration ls cfg it st =
     (Return \<lparr>res_Vm = f_Vm st2, res_Va = f_Va st2, res_P = fst (frame_PQ st),
        res_Q = snd (frame_PQ st), iterations = int it, converged = True\<rparr>, st2)"
proof -
  have "\<not> list_ex (\<lambda>k. py_index (f_n st2) k = None) (q_rows st2)"
    using assms(2) by (simp add: list_all_iff list_ex_iff)
  moreover obtain Pv Qv where pq: "injections (f_Y st) (f_Vm st) (f_Va st) = (Pv, Qv)"
    by fastforce
  ultimately show ?thesis
    using assms(1,3,4) unfolding iteration_def frame_PQ_def
    by (simp add: Let_def)
qed

lemma iteration_Continue_PQ:
  assumes "iteration ls cfg it st = (Continue, st')"
  shows "f_PQ st' = Some (frame_PQ st)"
proof -
  from iteration_enforce [OF assms] obtain r0 st2 where
    e: "enforce_limits (snd (frame_PQ st)) (f_PV_active st) (st\<lparr>f_PQ := Some (frame_PQ st)\<rparr>) = (r0, st2)"
    and pq: "f_PQ st' = f_PQ st2" by blast
  from enforce_limits_fields [OF e] pq show ?thesis by simp
qed

lemma iteration_network:
  assumes "iteration ls cfg it st = (r, st')"
  shows "f_network st' = f_network st"
proof -
  from iteration_enforce [OF assms] obtain r0 st2 where
    e: "enforce_limits (snd (frame_PQ st)) (f_PV_active st) (st\<lparr>f_PQ := Some (frame_PQ st)\<rparr>) = (r0, st2)"
    and n: "f_network st' = f_network st2" by blast
  from enforce_limits_fields [OF e] n show ?thesis by simp
qed

lemma iteration_wf:
  assumes "iteration ls cfg it st = (r, st')" and "frame_wf net st"
  shows "frame_wf net st'"
proof -
  from iteration_enforce [OF assms(1)] obtain r0 st2 where
    e: "enforce_limits (snd (frame_PQ st)) (f_PV_active st) (st\<lparr>f_PQ := Some (frame_PQ st)\<rparr>) = (r0, st2)"
    and n: "f_network st' = f_network st2" "f_n st' = f_n st2" "f_Q_spec st' = f_Q_spec st2" by blast
  from enforce_limits_fields [OF e] n assms(2) show ?thesis by (simp add: frame_wf_def)
qed

lemma iteration_sets:
  assumes "iteration ls cfg it st = (r, st')"
  shows "set (f_PV_active st') \<subseteq> set (f_PV_active st) \<and>
     set (f_PV_conv st) \<subseteq> set (f_PV_conv st') \<and>
     set (f_PV_active st') \<union> set (f_PV_conv st') = set (f_PV_active st) \<union> set (f_PV_conv st) \<and>
     (set (f_PV_active st) \<inter> set (f_PV_conv st) = {} \<longrightarrow>
        set (f_PV_active st') \<inter> set (f_PV_conv st') = {})"
proof -
  from iteration_enforce [OF assms(1)] obtain r0 st2 where
    e: "enforce_limits (snd (frame_PQ st)) (f_PV_active st) (st\<lparr>f_PQ := Some (frame_PQ st)\<rparr>) = (r0, st2)"
    and n: "f_PV_active st' = f_PV_active st2" "f_PV_conv st' = f_PV_conv st2" by blast
  from enforce_limits_sets [OF e] n show ?thesis by auto
qed

lemma iteration_partition:
  assumes "iteration ls cfg it st = (r, st')" and "pv_partition net st"
  shows "pv_partition net st'"
  using iteration_sets [OF assms(1)] assms(2) by (simp add: pv_partition_def)

lemma iteration_transition:
  assumes "iteration ls cfg it st = (r, st')" and "frame_wf net st"
    and "k \<in> set (f_PV_active st)" and "k \<notin> set (f_PV_active st')"
  shows "\<exists>p. py_index (nbus net) k = Some p \<and>
     violates (buses net ! p) (snd (frame_PQ st) ! p) (f_Q_spec st' ! p)"
proof -
  let ?st1 = "st\<lparr>f_PQ := Some (frame_PQ st)\<rparr>"
  from iteration_enforce [OF assms(1)] obtain r0 st2 where
    e: "enforce_limits (snd (frame_PQ st)) (f_PV_active st) ?st1 = (r0, st2)"
    and n: "f_PV_active st' = f_PV_active st2" "f_Q_spec st' = f_Q_spec st2" by blast
  have "length (f_Q_spec ?st1) = f_n ?st1" "k \<in> set (f_PV_active ?st1)"
    "k \<notin> set (f_PV_active st2)"
    using assms(2,3,4) n by (simp_all add: frame_wf_def)
  from enforce_limits_transition [OF e this]
  obtain p where "py_index (f_n ?st1) k = Some p"
    "violated (buses (f_network ?st1) ! p) (snd (frame_PQ st) ! p) = Some (f_Q_spec st2 ! p)"
    by blast
  then show ?thesis
    using assms(2) n violated_Some by (auto simp: frame_wf_def)
qed

lemma iteration_complete:
  assumes "iteration ls cfg it st = (r, st')" and "frame_wf net st"
    and "r = Continue \<or> (\<exists>res. r = Return res)"
    and "k \<in> set (f_PV_active st)" and "py_index (nbus net) k = Some p"
    and "violates (buses net ! p) (snd (frame_PQ st) ! p) l"
  shows "k \<notin> set (f_PV_active st')"
proof -
  let ?st1 = "st\<lparr>f_PQ := Some (frame_PQ st)\<rparr>"
  from iteration_enforce [OF assms(1)] obtain r0 st2 where
    e: "enforce_limits (snd (frame_PQ st)) (f_PV_active st) ?st1 = (r0, st2)"
    and n: "f_PV_active st' = f_PV_active st2"
    and r0: "r0 = Continue \<or> (r = r0 \<and> st' = st2)" by blast
  have "r0 = Continue" using r0 assms(3) enforce_limits_result [OF e] by auto
  then have e': "enforce_limits (snd (frame_PQ st)) (f_PV_active ?st1) ?st1 = (Continue, st2)"
    using e by simp
  have "violated (buses (f_network ?st1) ! p) (snd (frame_PQ st) ! p) \<noteq> None"
    using assms(2,6) violated_None by (auto simp: frame_wf_def)
  moreover have "py_index (f_n ?st1) k = Some p" "k \<in> set (f_PV_active ?st1)"
    using assms(2,4,5) by (simp_all add: frame_wf_def)
  ultimately show ?thesis using enforce_limits_complete [OF e'] n by auto
qed

section \<open>The loop and the result of \<open>solve\<close>\<close>


lemma frame_at_Suc_Some:
  "frame_at ls cfg st0 (Suc i) = Some st' \<Longrightarrow>
   \<exists>st. frame_at ls cfg st0 i = Some st \<and> iteration ls cfg i st = (Continue, st')"
  by (auto split: option.splits prod.splits step.splits)

lemma loop_frame_at:
  "frame_at ls cfg st0 it = Some st \<Longrightarrow>
   newton_loop ls cfg 0 (it + r) st0 = newton_loop ls cfg it r st"
proof (induction it arbitrary: st r)
  case 0
  then show ?case by simp
next
  case (Suc it)
  from frame_at_Suc_Some [OF Suc.prems] obtain sp
    where sp: "frame_at ls cfg st0 it = Some sp"
      and it: "iteration ls cfg it sp = (Continue, st)" by blast
  have "newton_loop ls cfg 0 (it + Suc r) st0 = newton_loop ls cfg it (Suc r) sp"
    by (rule Suc.IH [OF sp])
  also have "\<dots> = newton_loop ls cfg (Suc it) r st" using it by simp
  finally show ?case by simp
qed

lemma init_frame_wf: "frame_wf net (init_frame net Y slack)"
  by (simp add: frame_wf_def init_frame_def nbus_def)

lemma init_frame_partition: "pv_partition net (init_frame net Y slack)"
  by (simp add: pv_partition_def init_frame_def)

lemma frame_at_wf:
  "frame_wf net st0 \<Longrightarrow> frame_at ls cfg st0 i = Some st \<Longrightarrow> frame_wf net st"
proof (induction i arbitrary: st)
  case 0
  then show ?case by simp
next
  case (Suc i)
  from frame_at_Suc_Some [OF Suc.prems(2)] obtain sp
    where "frame_at ls cfg st0 i = Some sp" "iteration ls cfg i sp = (Continue, st)" by blast
  then show ?case using Suc.IH Suc.prems(1) iteration_wf by blast
qed

lemma frame_at_partition:
  "pv_partition net st0 \<Longrightarrow> frame_at ls cfg st0 i = Some st \<Longrightarrow> pv_partition net st"
proof (induction i arbitrary: st)
  case 0
  then show ?case by simp
next
  case (Suc i)
  from frame_at_Suc_Some [OF Suc.prems(2)] obtain sp
    where "frame_at ls cfg st0 i = Some sp" "iteration ls cfg i sp = (Continue, st)" by blast
  then show ?case using Suc.IH Suc.prems(1) iteration_partition by blast
qed

lemma frame_at_mono:
  "frame_at ls cfg st0 i = Some si \<Longrightarrow> frame_at ls cfg st0 (i + d) = Some sj \<Longrightarrow>
   set (f_PV_active sj) \<subseteq> set (f_PV_active si) \<and> set (f_PV_conv si) \<subseteq> set (f_PV_conv sj)"
proof (induction d arbitrary: sj)
  case 0
  then show ?case by simp
next
  case (Suc d)
  from Suc.prems(2) have "frame_at ls cfg st0 (Suc (i + d)) = Some sj" by simp
  from frame_at_Suc_Some [OF this] obtain sp
    where sp: "frame_at ls cfg st0 (i + d) = Some sp"
      and it: "iteration ls cfg (i + d) sp = (Continue, sj)" by blast
  from Suc.IH [OF Suc.prems(1) sp] iteration_sets [OF it] show ?case by blast
qed

lemma newton_loop_network:
  "newton_loop ls cfg it r st = (res, st') \<Longrightarrow> f_network st' = f_network st"
proof (induction r arbitrary: it st)
  case 0
  then show ?case by (auto split: option.splits)
next
  case (Suc r)
  obtain r1 st1 where i: "iteration ls cfg it st = (r1, st1)" by fastforce
  note n = iteration_network [OF i]
  show ?case
  proof (cases r1)
    case Continue
    then have "newton_loop ls cfg (Suc it) r st1 = (res, st')" using Suc.prems i by simp
    from Suc.IH [OF this] n show ?thesis by simp
  next
    case (Raise e)
    then show ?thesis using Suc.prems i n by auto
  next
    case (Return x)
    then show ?thesis using Suc.prems i n by auto
  qed
qed

lemma iteration_nonpositive_tol:
  assumes "tol cfg \<le> 0"
  shows "iteration ls cfg it st \<noteq> (Return res, st')"
proof
  assume "iteration ls cfg it st = (Return res, st')"
  from iteration_Return [OF this] max_abs_nonneg assms show False by fastforce
qed

lemma newton_loop_nonpositive_tol:
  "tol cfg \<le> 0 \<Longrightarrow> newton_loop ls cfg it r st = (Inr res, st') \<Longrightarrow>
   \<not> converged res \<and> iterations res = max_iter cfg"
proof (induction r arbitrary: it st)
  case 0
  then show ?case by (auto split: option.splits)
next
  case (Suc r)
  obtain r1 st1 where i: "iteration ls cfg it st = (r1, st1)" by fastforce
  show ?case
  proof (cases r1)
    case Continue
    then have "newton_loop ls cfg (Suc it) r st1 = (Inr res, st')" using Suc.prems i by simp
    from Suc.IH [OF Suc.prems(1) this] show ?thesis .
  next
    case (Raise e)
    then show ?thesis using Suc.prems i by auto
  next
    case (Return x)
    then show ?thesis using i iteration_nonpositive_tol [OF Suc.prems(1)] by auto
  qed
qed

text \<open>
  Claim C8. \<open>solve\<close> never writes to the \<open>Network\<close> it is given: whether the call
  returns a result or raises, the network object it leaves behind equals the one it
  received, with all its buses, branches and shunts; every evolving quantity lives in the
  frame of the call. Solving the same network again therefore starts from identical
  inputs and has the same outcome.
\<close>

theorem solve_frame:
  "snd (solve_run ls cfg net) = net \<and>
   solve_run ls cfg (snd (solve_run ls cfg net)) = solve_run ls cfg net"
proof -
  have "snd (solve_run ls cfg net) = net"
  proof (cases "build_ybus net")
    case (Inl e)
    then show ?thesis by (simp add: solve_run_def)
  next
    case (Inr Y)
    show ?thesis
    proof (cases "slack_index net")
      case (Inl e)
      then show ?thesis using Inr by (simp add: solve_run_def)
    next
      case (Inr slack)
      obtain r st where l: "newton_loop ls cfg 0 (nat (max_iter cfg)) (init_frame net Y slack) = (r, st)"
        by fastforce
      from newton_loop_network [OF l] have "f_network st = net" by (simp add: init_frame_def)
      then show ?thesis using \<open>build_ybus net = Inr Y\<close> Inr l by (simp add: solve_run_def)
    qed
  qed
  then show ?thesis by simp
qed

text \<open>
  Claim C5, as amended. The solver has no validation of its settings: \<open>LoadFlow.__init__\<close>
  stores whatever tolerance and iteration count it is given, and \<open>solve\<close> does not
  reject a non-positive tolerance. With such a tolerance the convergence test can never
  succeed, so whenever \<open>solve\<close> returns, it returns \<open>converged = false\<close> with the
  iteration count equal to \<open>max_iter\<close>.
\<close>

theorem solve_nonpositive_tol:
  assumes "tol cfg \<le> 0" and "solve ls cfg net = Inr res"
  shows "\<not> converged res \<and> iterations res = max_iter cfg \<and>
     tol (LoadFlow_init t m v) = t \<and> max_iter (LoadFlow_init t m v) = m"
proof -
  from assms(2) obtain Y slack st where
    "newton_loop ls cfg 0 (nat (max_iter cfg)) (init_frame net Y slack) = (Inr res, st)"
    by (auto simp: solve_def solve_run_def Let_def split: sum.splits prod.splits)
  from newton_loop_nonpositive_tol [OF assms(1) this] show ?thesis
    by (simp add: LoadFlow_init_def)
qed

lemma solve_converges_at:
  assumes "build_ybus net = Inr Y" and "slack_index net = Inr slack"
    and "int it < max_iter cfg"
    and "frame_at ls cfg (init_frame net Y slack) it = Some st"
    and "fst (limit_pass st) = Continue"
    and "list_all (\<lambda>k. py_index (f_n st) k \<noteq> None) (q_rows (snd (limit_pass st)))"
    and "frame_mismatch st \<noteq> []"
    and "max_abs (frame_mismatch st) < tol cfg"
  shows "solve ls cfg net =
     Inr \<lparr>res_Vm = f_Vm st, res_Va = f_Va st, res_P = fst (frame_PQ st),
          res_Q = snd (frame_PQ st), iterations = int it, converged = True\<rparr>"
proof -
  obtain st2 where lp: "limit_pass st = (Continue, st2)"
    using assms(5) by (cases "limit_pass st") auto
  then have e: "enforce_limits (snd (frame_PQ st)) (f_PV_active st) (st\<lparr>f_PQ := Some (frame_PQ st)\<rparr>)
      = (Continue, st2)" by (simp add: limit_pass_def)
  note f = enforce_limits_fields [OF e]
  have "iteration ls cfg it st =
     (Return \<lparr>res_Vm = f_Vm st2, res_Va = f_Va st2, res_P = fst (frame_PQ st),
        res_Q = snd (frame_PQ st), iterations = int it, converged = True\<rparr>, st2)"
    using assms(6,7,8) lp f by (intro iteration_converges [OF e]) (simp_all add: frame_mismatch_def)
  then have i: "iteration ls cfg it st =
     (Return \<lparr>res_Vm = f_Vm st, res_Va = f_Va st, res_P = fst (frame_PQ st),
        res_Q = snd (frame_PQ st), iterations = int it, converged = True\<rparr>, st2)"
    using f by simp
  obtain r where r: "nat (max_iter cfg) = it + Suc r"
    using assms(3) by (metis add_Suc_right less_imp_Suc_add zless_nat_eq_int_zless)
  have "newton_loop ls cfg 0 (nat (max_iter cfg)) (init_frame net Y slack)
      = newton_loop ls cfg it (Suc r) st"
    unfolding r by (rule loop_frame_at [OF assms(4)])
  then show ?thesis using i assms(1,2) by (simp add: solve_def solve_run_def)
qed

text \<open>
  Claim C1. At the iteration of index \<open>it\<close> (counted from 0, within the iteration budget)
  whose mismatch vector \<open>[dP; dQ]\<close> has a maximum absolute entry strictly below the
  tolerance, \<open>solve\<close> stops and returns \<open>converged = true\<close> with \<open>iterations = it\<close>, the
  number of Newton updates completed before, together with the current magnitudes and
  angles and the injections just computed. For \<open>it = 0\<close> the frame is the initial one:
  a network whose initial state satisfies the tolerance returns \<open>iterations = 0\<close>.
\<close>

theorem solve_convergence_iteration_count:
  assumes "build_ybus net = Inr Y" and "slack_index net = Inr slack"
    and "int it < max_iter cfg"
    and "frame_at ls cfg (init_frame net Y slack) it = Some st"
    and "fst (limit_pass st) = Continue"
    and "list_all (\<lambda>k. py_index (f_n st) k \<noteq> None) (q_rows (snd (limit_pass st)))"
    and "frame_mismatch st \<noteq> []"
    and "max_abs (frame_mismatch st) < tol cfg"
  shows "solve ls cfg net =
     Inr \<lparr>res_Vm = f_Vm st, res_Va = f_Va st, res_P = fst (frame_PQ st),
          res_Q = snd (frame_PQ st), iterations = int it, converged = True\<rparr>"
  using assms by (rule solve_converges_at)

text \<open>
  Claim C3. When the iteration budget \<open>max_iter\<close> is positive and every iteration of the
  budget runs to its end (its linear solve succeeds, nothing raises) without the
  convergence test succeeding, \<open>solve\<close> returns normally with \<open>converged = false\<close>, the
  iteration count \<open>max_iter\<close>, the magnitudes and angles after the last update and the
  injections computed in the last iteration.
\<close>

theorem solve_not_converged:
  assumes "build_ybus net = Inr Y" and "slack_index net = Inr slack"
    and "0 < max_iter cfg"
    and "frame_at ls cfg (init_frame net Y slack) (nat (max_iter cfg)) = Some st"
  shows "\<exists>sp. frame_at ls cfg (init_frame net Y slack) (nat (max_iter cfg) - 1) = Some sp \<and>
     solve ls cfg net =
       Inr \<lparr>res_Vm = f_Vm st, res_Va = f_Va st, res_P = fst (frame_PQ sp),
            res_Q = snd (frame_PQ sp), iterations = max_iter cfg, converged = False\<rparr>"
proof -
  obtain m where m: "nat (max_iter cfg) = Suc m"
    using assms(3) by (metis Suc_pred' zero_less_nat_eq)
  from assms(4) frame_at_Suc_Some [of ls cfg _ m st] m obtain sp
    where sp: "frame_at ls cfg (init_frame net Y slack) m = Some sp"
      and it: "iteration ls cfg m sp = (Continue, st)" by auto
  have pq: "f_PQ st = Some (frame_PQ sp)" by (rule iteration_Continue_PQ [OF it])
  have "newton_loop ls cfg 0 (nat (max_iter cfg) + 0) (init_frame net Y slack)
      = newton_loop ls cfg (nat (max_iter cfg)) 0 st"
    by (rule loop_frame_at [OF assms(4)])
  then have "solve ls cfg net =
       Inr \<lparr>res_Vm = f_Vm st, res_Va = f_Va st, res_P = fst (frame_PQ sp),
            res_Q = snd (frame_PQ sp), iterations = max_iter cfg, converged = False\<rparr>"
    using pq assms(1,2) by (simp add: solve_def solve_run_def split: prod.splits)
  then show ?thesis using sp m by simp
qed

section \<open>Concrete runs\<close>


lemma init_line:
  "init_frame net_line Y_line 0 =
     \<lparr>f_network = net_line, f_Y = Y_line, f_n = 2, f_slack = 0, f_pv = [], f_pq = [1],
      f_Vm = [1, 1], f_Va = [0, 0], f_P_spec = [0, 0], f_Q_spec = [0, 0],
      f_PV_active = [], f_PV_conv = [], f_PQ = None\<rparr>"
  by (simp add: init_frame_def net_line_def nbus_def pv_indices_def pq_indices_def Bus_init_def
      deg2rad_def)

lemma injections_flat: "injections Y_line [1, 1] [0, 0] = ([0, 0], [0, 0])"
  by (simp add: injections_def voltages_def matvec_def Y_line_def Let_def)

lemma frame_PQ_line: "frame_PQ (init_frame net_line Y_line 0) = ([0, 0], [0, 0])"
  by (simp add: frame_PQ_def init_line injections_flat)

lemma limit_pass_line:
  "limit_pass (init_frame net_line Y_line 0) =
     (Continue, (init_frame net_line Y_line 0)\<lparr>f_PQ := Some ([0, 0], [0, 0])\<rparr>)"
  by (simp add: limit_pass_def frame_PQ_line) (simp add: init_line)

lemma upt_2: "[0..<2] = [0, 1]"
  by (simp add: numeral_2_eq_2)

lemma mismatch_line: "frame_mismatch (init_frame net_line Y_line 0) = [0, 0]"
  by (simp add: frame_mismatch_def limit_pass_line frame_PQ_line)
     (simp add: init_line mismatch_def p_rows_def q_rows_def getitem_def pos_def upt_2)

lemma slack_line: "slack_index net_line = Inr 0"
  by (simp add: slack_index_def net_line_def Bus_init_def)


lemma build_ybus_net_pv: "build_ybus net_pv = Inr Y_line"
  by (simp add: build_ybus_def net_pv_def nbus_def Bus_init_def line01_def branch_stamp_def
      Let_def ebind_def add_at_def py_index_def mat_add_def deg2rad_def Y_line_def
      numeral_2_eq_2 inverse_Complex_0_1 Complex_eq_0)

lemma slack_pv: "slack_index net_pv = Inr 0"
  by (simp add: slack_index_def net_pv_def Bus_init_def)

lemma init_pv:
  "init_frame net_pv Y_line 0 =
     \<lparr>f_network = net_pv, f_Y = Y_line, f_n = 2, f_slack = 0, f_pv = [1], f_pq = [],
      f_Vm = [1, 1], f_Va = [0, 0], f_P_spec = [0, 2], f_Q_spec = [0, 0],
      f_PV_active = [1], f_PV_conv = [], f_PQ = None\<rparr>"
  by (simp add: init_frame_def net_pv_def nbus_def pv_indices_def pq_indices_def Bus_init_def
      deg2rad_def)

lemma limit_pass_pv:
  "limit_pass (init_frame net_pv Y_line 0) =
     (Continue, (init_frame net_pv Y_line 0)\<lparr>f_PQ := Some ([0, 0], [0, 0])\<rparr>)"
  by (simp add: limit_pass_def frame_PQ_def init_pv injections_flat enforce_one_def
      py_index_def)
     (simp add: violated_def net_pv_def Bus_init_def)

lemma iteration_pv:
  assumes "tol cfg \<le> 1"
  shows "iteration linalg_solve cfg it (init_frame net_pv Y_line 0) =
     (Continue, (init_frame net_pv Y_line 0)\<lparr>f_PQ := Some ([0, 0], [0, 0]), f_Va := [0, 2]\<rparr>)"
proof -
  let ?st = "(init_frame net_pv Y_line 0)\<lparr>f_PQ := Some ([0, 0], [0, 0])\<rparr>"
  have e: "enforce_limits [0, 0] [1] ?st = (Continue, ?st)"
    using limit_pass_pv by (simp add: limit_pass_def frame_PQ_def init_pv injections_flat)
  have p: "p_rows ?st = [1]" and q: "q_rows ?st = []"
    by (simp_all add: init_pv p_rows_def q_rows_def upt_2)
  have m: "mismatch ?st [0, 0] [0, 0] = [2]"
    by (simp add: mismatch_def p q) (simp add: init_pv getitem_def pos_def)
  have j: "jacobian ?st [0, 0] [0, 0] = [[1]]"
    by (simp add: jacobian_def p q Let_def H_entry_def B_at_def)
       (simp add: init_pv getitem_def pos_def, simp add: Y_line_def)
  have l: "linalg_solve [[1]] [2] = Inr [2]"
    by (simp add: linalg_solve_def Let_def remove_nth_def)
  have a: "add_rows (f_Va (init_frame net_pv Y_line 0)) [1] [2] = [0, 2]"
    "add_rows (f_Vm (init_frame net_pv Y_line 0)) [] [] = [1, 1]"
    by (simp_all add: add_rows_def init_pv getitem_def pos_def)
  have r: "reimpose (f_network (init_frame net_pv Y_line 0)) [1] [1, 1] = [1, 1]"
    by (simp add: reimpose_def init_pv getitem_def pos_def, simp add: net_pv_def Bus_init_def)
  have i: "injections (f_Y (init_frame net_pv Y_line 0)) (f_Vm (init_frame net_pv Y_line 0))
      (f_Va (init_frame net_pv Y_line 0)) = ([0, 0], [0, 0])"
    by (simp add: init_pv injections_flat)
  have pa: "f_PV_active (init_frame net_pv Y_line 0) = [1]" by (simp add: init_pv)
  show ?thesis
    unfolding iteration_def i
    using assms
    by (simp add: Let_def pa e p q m j l a r max_abs_def del: enforce_limits.simps)
       (simp add: init_pv)
qed

lemma solve_pv_one:
  assumes "tol cfg \<le> 1" and "max_iter cfg = 1"
  shows "solve linalg_solve cfg net_pv =
     Inr \<lparr>res_Vm = [1, 1], res_Va = [0, 2], res_P = [0, 0], res_Q = [0, 0],
          iterations = 1, converged = False\<rparr>"
  using assms
  by (simp add: solve_def solve_run_def build_ybus_net_pv slack_pv iteration_pv)
     (simp add: init_pv)

section \<open>Instances of the results on \<open>solve\<close>\<close>


theorem solve_convergence_iteration_count_witness:
  "build_ybus net_line = Inr Y_line \<and> slack_index net_line = Inr 0 \<and>
   int 0 < max_iter cfg_default \<and>
   frame_at linalg_solve cfg_default (init_frame net_line Y_line 0) 0
     = Some (init_frame net_line Y_line 0) \<and>
   fst (limit_pass (init_frame net_line Y_line 0)) = Continue \<and>
   frame_mismatch (init_frame net_line Y_line 0) = [0, 0] \<and>
   max_abs [0, 0] < tol cfg_default \<and>
   solve linalg_solve cfg_default net_line =
     Inr \<lparr>res_Vm = [1, 1], res_Va = [0, 0], res_P = [0, 0], res_Q = [0, 0],
          iterations = 0, converged = True\<rparr>"
proof -
  let ?st = "init_frame net_line Y_line 0"
  have h3: "int 0 < max_iter cfg_default"
    by (simp add: cfg_default_def LoadFlow_init_def)
  have h4: "frame_at linalg_solve cfg_default ?st 0 = Some ?st" by simp
  have h5: "fst (limit_pass ?st) = Continue" by (simp add: limit_pass_line)
  have h6: "list_all (\<lambda>k. py_index (f_n ?st) k \<noteq> None) (q_rows (snd (limit_pass ?st)))"
    by (simp add: limit_pass_line) (simp add: init_line q_rows_def py_index_def)
  have h7: "frame_mismatch ?st \<noteq> []" by (simp add: mismatch_line)
  have h8: "max_abs (frame_mismatch ?st) < tol cfg_default"
    by (simp add: mismatch_line max_abs_def cfg_default_def LoadFlow_init_def)
  have pq: "frame_PQ ?st = ([0, 0], [0, 0])" by (rule frame_PQ_line)
  have v: "f_Vm ?st = [1, 1]" "f_Va ?st = [0, 0]" by (simp_all add: init_line)
  show ?thesis
    using solve_convergence_iteration_count
      [OF build_ybus_net_line slack_line h3 h4 h5 h6 h7 h8]
      build_ybus_net_line slack_line h3 h5 h8
    by (simp add: pq v mismatch_line)
qed

lemma frame_at_pv_one:
  assumes "tol cfg \<le> 1"
  shows "frame_at linalg_solve cfg (init_frame net_pv Y_line 0) (Suc 0) =
     Some ((init_frame net_pv Y_line 0)\<lparr>f_PQ := Some ([0, 0], [0, 0]), f_Va := [0, 2]\<rparr>)"
  using assms by (simp add: iteration_pv)

lemma frame_PQ_pv: "frame_PQ (init_frame net_pv Y_line 0) = ([0, 0], [0, 0])"
  by (simp add: frame_PQ_def init_pv injections_flat)

theorem solve_not_converged_witness:
  "build_ybus net_pv = Inr Y_line \<and> slack_index net_pv = Inr 0 \<and> 0 < max_iter cfg_one \<and>
   frame_at linalg_solve cfg_one (init_frame net_pv Y_line 0) (nat (max_iter cfg_one)) =
     Some ((init_frame net_pv Y_line 0)\<lparr>f_PQ := Some ([0, 0], [0, 0]), f_Va := [0, 2]\<rparr>) \<and>
   solve linalg_solve cfg_one net_pv =
     Inr \<lparr>res_Vm = [1, 1], res_Va = [0, 2], res_P = [0, 0], res_Q = [0, 0],
          iterations = 1, converged = False\<rparr>"
proof -
  have t: "tol cfg_one \<le> 1" and m: "max_iter cfg_one = 1"
    by (simp_all add: cfg_one_def LoadFlow_init_def)
  have h3: "0 < max_iter cfg_one" using m by simp
  have h4: "frame_at linalg_solve cfg_one (init_frame net_pv Y_line 0) (nat (max_iter cfg_one)) =
     Some ((init_frame net_pv Y_line 0)\<lparr>f_PQ := Some ([0, 0], [0, 0]), f_Va := [0, 2]\<rparr>)"
    using frame_at_pv_one [OF t] m by simp
  show ?thesis
    using solve_not_converged [OF build_ybus_net_pv slack_pv h3 h4]
      build_ybus_net_pv slack_pv h3 h4 m
    by (simp add: frame_PQ_pv) (simp add: init_pv)
qed

theorem solve_nonpositive_tol_witness:
  "tol cfg_zero_tol \<le> 0 \<and>
   solve linalg_solve cfg_zero_tol net_pv =
     Inr \<lparr>res_Vm = [1, 1], res_Va = [0, 2], res_P = [0, 0], res_Q = [0, 0],
          iterations = 1, converged = False\<rparr> \<and>
   iterations \<lparr>res_Vm = [1, 1], res_Va = [0, 2], res_P = [0, 0], res_Q = [0, 0],
          iterations = 1, converged = False\<rparr> = max_iter cfg_zero_tol \<and>
   tol (LoadFlow_init (- 1) 0 False) = - 1 \<and> max_iter (LoadFlow_init (- 1) 0 False) = 0"
proof -
  have t: "tol cfg_zero_tol \<le> 0" and t1: "tol cfg_zero_tol \<le> 1" and m: "max_iter cfg_zero_tol = 1"
    by (simp_all add: cfg_zero_tol_def LoadFlow_init_def)
  note s = solve_pv_one [OF t1 m]
  show ?thesis
    using solve_nonpositive_tol [OF t s, of "- 1" 0 False] t s by simp
qed

text \<open>A solver with tolerance 0 is constructed and run: it performs a Newton update (the
  angle of bus 1 moves from 0 to 2) and returns a result instead of rejecting its settings.\<close>

theorem solve_zero_tol_counterexample:
  "cfg_zero_tol = LoadFlow_init 0 1 False \<and> tol cfg_zero_tol \<le> 0 \<and>
   solve linalg_solve cfg_zero_tol net_pv =
     Inr \<lparr>res_Vm = [1, 1], res_Va = [0, 2], res_P = [0, 0], res_Q = [0, 0],
          iterations = 1, converged = False\<rparr>"
proof -
  have "tol cfg_zero_tol \<le> 1" "max_iter cfg_zero_tol = 1"
    by (simp_all add: cfg_zero_tol_def LoadFlow_init_def)
  then show ?thesis
    by (simp add: solve_pv_one) (simp add: cfg_zero_tol_def LoadFlow_init_def)
qed

lemma solve_no_budget:
  assumes "build_ybus net = Inr Y" and "slack_index net = Inr slack" and "max_iter cfg \<le> 0"
  shows "solve ls cfg net = Inl UnboundLocalError"
  using assms by (simp add: solve_def solve_run_def init_frame_def)

section \<open>PV sets and bus subscripts\<close>


lemma iteration_limit_pass:
  assumes "iteration ls cfg it st = (r, st')"
  shows "f_PV_active st' = f_PV_active (snd (limit_pass st)) \<and>
     f_PV_conv st' = f_PV_conv (snd (limit_pass st)) \<and>
     f_Q_spec st' = f_Q_spec (snd (limit_pass st)) \<and>
     (fst (limit_pass st) = Continue \<or> r = fst (limit_pass st))"
  using iteration_enforce [OF assms] by (auto simp: limit_pass_def)

lemma limit_pass_complete:
  assumes "frame_wf net st" and "fst (limit_pass st) = Continue"
    and "k \<in> set (f_PV_active st)" and "py_index (nbus net) k = Some p"
    and "violates (buses net ! p) (snd (frame_PQ st) ! p) l"
  shows "k \<notin> set (f_PV_active (snd (limit_pass st)))"
proof -
  let ?st1 = "st\<lparr>f_PQ := Some (frame_PQ st)\<rparr>"
  obtain st2 where e: "enforce_limits (snd (frame_PQ st)) (f_PV_active ?st1) ?st1 = (Continue, st2)"
    using assms(2) by (cases "limit_pass st") (auto simp: limit_pass_def)
  have "violated (buses (f_network ?st1) ! p) (snd (frame_PQ st) ! p) \<noteq> None"
    using assms(1,5) violated_None by (auto simp: frame_wf_def)
  moreover have "py_index (f_n ?st1) k = Some p" "k \<in> set (f_PV_active ?st1)"
    using assms(1,3,4) by (simp_all add: frame_wf_def)
  ultimately have "k \<notin> set (f_PV_active st2)" using enforce_limits_complete [OF e] by auto
  then show ?thesis using e by (simp add: limit_pass_def)
qed

text \<open>
  Claim C2. Let \<open>si\<close> and \<open>sj\<close> be the frames at the start of iterations \<open>i\<close> and \<open>i + d\<close>
  of one call of \<open>solve\<close>, and \<open>sj'\<close> the frame iteration \<open>i + d\<close> leaves behind (whether
  it goes on, returns or raises). Then \<open>PV_active\<close> only shrinks and \<open>PV_conv\<close> only
  grows from \<open>si\<close> over \<open>sj\<close> to \<open>sj'\<close>; the two sets are disjoint and their union is the
  set of PV indices of the network; an index converted by iteration \<open>i\<close> is not active at
  any later time. An index leaves \<open>PV_active\<close> in iteration \<open>i + d\<close> only by entering
  \<open>PV_conv\<close>, only when the bus it addresses has a limit violated by the reactive power
  computed in that iteration, and \<open>Q_spec\<close> of that bus is then the violated limit; and
  when the limit pass runs to its end, every active index whose bus violates a limit
  leaves \<open>PV_active\<close>.
\<close>

theorem pv_sets_one_way:
  assumes "frame_at ls cfg (init_frame net Y slack) i = Some si"
    and "frame_at ls cfg (init_frame net Y slack) (i + d) = Some sj"
    and "iteration ls cfg (i + d) sj = (r, sj')"
  shows "set (f_PV_active sj') \<subseteq> set (f_PV_active sj) \<and>
     set (f_PV_active sj) \<subseteq> set (f_PV_active si) \<and>
     set (f_PV_conv si) \<subseteq> set (f_PV_conv sj) \<and>
     set (f_PV_conv sj) \<subseteq> set (f_PV_conv sj') \<and>
     set (f_PV_active sj') \<inter> set (f_PV_conv sj') = {} \<and>
     set (f_PV_active sj') \<union> set (f_PV_conv sj') = set (pv_indices net) \<and>
     (\<forall>k\<in>set (f_PV_conv si). k \<notin> set (f_PV_active sj) \<and> k \<notin> set (f_PV_active sj')) \<and>
     (\<forall>k\<in>set (f_PV_active sj). k \<notin> set (f_PV_active sj') \<longrightarrow>
        k \<in> set (f_PV_conv sj') \<and>
        (\<exists>p. py_index (nbus net) k = Some p \<and>
           violates (buses net ! p) (snd (frame_PQ sj) ! p) (f_Q_spec sj' ! p))) \<and>
     (fst (limit_pass sj) = Continue \<longrightarrow>
        (\<forall>k\<in>set (f_PV_active sj). \<forall>p l. py_index (nbus net) k = Some p \<and>
           violates (buses net ! p) (snd (frame_PQ sj) ! p) l \<longrightarrow> k \<notin> set (f_PV_active sj')))"
proof -
  let ?st0 = "init_frame net Y slack"
  have wf: "frame_wf net sj" by (rule frame_at_wf [OF init_frame_wf assms(2)])
  have pi: "pv_partition net si" by (rule frame_at_partition [OF init_frame_partition assms(1)])
  have pj: "pv_partition net sj" by (rule frame_at_partition [OF init_frame_partition assms(2)])
  have pj': "pv_partition net sj'" by (rule iteration_partition [OF assms(3) pj])
  note m = frame_at_mono [OF assms(1,2)]
  note s = iteration_sets [OF assms(3)]
  have a: "set (f_PV_active sj') \<subseteq> set (f_PV_active sj)"
    and b: "set (f_PV_active sj) \<subseteq> set (f_PV_active si)"
    and c: "set (f_PV_conv si) \<subseteq> set (f_PV_conv sj)"
    and d: "set (f_PV_conv sj) \<subseteq> set (f_PV_conv sj')"
    using m s by blast+
  have e: "set (f_PV_active sj') \<inter> set (f_PV_conv sj') = {}"
    and f: "set (f_PV_active sj') \<union> set (f_PV_conv sj') = set (pv_indices net)"
    using pj' by (simp_all add: pv_partition_def)
  have g: "\<forall>k\<in>set (f_PV_conv si). k \<notin> set (f_PV_active sj) \<and> k \<notin> set (f_PV_active sj')"
    using a c pj by (auto simp: pv_partition_def)
  have h: "\<forall>k\<in>set (f_PV_active sj). k \<notin> set (f_PV_active sj') \<longrightarrow>
        k \<in> set (f_PV_conv sj') \<and>
        (\<exists>p. py_index (nbus net) k = Some p \<and>
           violates (buses net ! p) (snd (frame_PQ sj) ! p) (f_Q_spec sj' ! p))"
  proof (intro ballI impI conjI)
    fix k assume k: "k \<in> set (f_PV_active sj)" "k \<notin> set (f_PV_active sj')"
    show "k \<in> set (f_PV_conv sj')" using k s by blast
    show "\<exists>p. py_index (nbus net) k = Some p \<and>
           violates (buses net ! p) (snd (frame_PQ sj) ! p) (f_Q_spec sj' ! p)"
      by (rule iteration_transition [OF assms(3) wf k])
  qed
  have i: "fst (limit_pass sj) = Continue \<longrightarrow>
        (\<forall>k\<in>set (f_PV_active sj). \<forall>p l. py_index (nbus net) k = Some p \<and>
           violates (buses net ! p) (snd (frame_PQ sj) ! p) l \<longrightarrow> k \<notin> set (f_PV_active sj'))"
    using limit_pass_complete [OF wf] iteration_limit_pass [OF assms(3)] by auto
  show ?thesis using a b c d e f g h i by blast
qed

lemma pos_py_index: "py_index n k = Some p \<Longrightarrow> pos n k = p"
  by (auto simp: py_index_def pos_def split: if_splits)

lemma set_q_rows: "set (q_rows st) = set (f_pq st) \<union> set (f_PV_conv st)"
  by (simp add: q_rows_def)

lemma iteration_bad_subscript:
  assumes "iteration ls cfg it st = (r, st')"
    and "k \<in> set (f_PV_active st) \<union> set (f_pq st)" and "py_index (f_n st) k = None"
  shows "r = Raise IndexError \<or> r = Raise AssertionError"
proof -
  let ?st1 = "st\<lparr>f_PQ := Some (frame_PQ st)\<rparr>"
  obtain r0 st2 where e: "enforce_limits (snd (frame_PQ st)) (f_PV_active st) ?st1 = (r0, st2)"
    by fastforce
  note f = enforce_limits_fields [OF e]
  note res = enforce_limits_result [OF e]
  show ?thesis
  proof (cases "r0 = Continue")
    case False
    then have "r = r0"
      using assms(1) e unfolding iteration_def frame_PQ_def
      by (cases r0) (auto simp: Let_def split: prod.splits)
    then show ?thesis using res False by auto
  next
    case True
    have "k \<notin> set (f_PV_active st)"
      using enforce_limits_out_of_range [OF e _] True assms(3) by auto
    then have "k \<in> set (q_rows st2)" using assms(2) f by (simp add: set_q_rows)
    moreover have "py_index (f_n st2) k = None" using assms(3) f by simp
    ultimately have "list_ex (\<lambda>k. py_index (f_n st2) k = None) (q_rows st2)"
      by (auto simp: list_ex_iff)
    then show ?thesis
      using assms(1) e True unfolding iteration_def frame_PQ_def
      by (auto simp: Let_def split: prod.splits)
  qed
qed

text \<open>
  Claim C10, as amended. The working vectors are built in list order and \<open>network.buses\<close>
  is a list, while the subscripts used on them are \<open>idx\<close> values: a subscript \<open>k\<close> reads the
  data of the bus stored at position \<open>k\<close> (\<open>n + k\<close> for a negative \<open>k\<close>), whatever \<open>idx\<close>
  that bus carries, so state belongs to the right bus only when \<open>idx\<close> equals position.
  A PV or PQ bus whose \<open>idx\<close> is no subscript of a sequence of length \<open>n\<close> makes the first
  iteration raise (\<open>IndexError\<close>, unless the assertion of the limit pass fails first), when
  set-up succeeds and the iteration budget is positive. The \<open>idx\<close> of the Slack bus is
  never used as a subscript.
\<close>

theorem bus_idx_subscripts:
  assumes "build_ybus net = Inr Y" and "slack_index net = Inr slack"
  shows "(\<forall>k p. py_index (nbus net) k = Some p \<longrightarrow>
        getitem (buses net) k = buses net ! p \<and>
        getitem (f_Vm (init_frame net Y slack)) k = bus_V (buses net ! p) \<and>
        getitem (f_Va (init_frame net Y slack)) k = deg2rad (bus_theta_deg (buses net ! p)) \<and>
        getitem (f_P_spec (init_frame net Y slack)) k = bus_P (buses net ! p) \<and>
        getitem (f_Q_spec (init_frame net Y slack)) k =
          (if bus_type (buses net ! p) = PQ then bus_Q (buses net ! p) else 0)) \<and>
     (0 < max_iter cfg \<and> b \<in> set (buses net) \<and> bus_type b \<noteq> SLACK \<and>
        py_index (nbus net) (bus_idx b) = None \<longrightarrow>
        solve ls cfg net = Inl IndexError \<or> solve ls cfg net = Inl AssertionError)"
proof -
  have 1: "getitem (buses net) k = buses net ! p \<and>
        getitem (f_Vm (init_frame net Y slack)) k = bus_V (buses net ! p) \<and>
        getitem (f_Va (init_frame net Y slack)) k = deg2rad (bus_theta_deg (buses net ! p)) \<and>
        getitem (f_P_spec (init_frame net Y slack)) k = bus_P (buses net ! p) \<and>
        getitem (f_Q_spec (init_frame net Y slack)) k =
          (if bus_type (buses net ! p) = PQ then bus_Q (buses net ! p) else 0)"
    if "py_index (nbus net) k = Some p" for k p
    using pos_py_index [OF that] py_index_less [OF that]
    by (simp add: getitem_def init_frame_def nbus_def)
  have 2: "solve ls cfg net = Inl IndexError \<or> solve ls cfg net = Inl AssertionError"
    if h: "0 < max_iter cfg" "b \<in> set (buses net)" "bus_type b \<noteq> SLACK"
      "py_index (nbus net) (bus_idx b) = None"
  proof -
    let ?st0 = "init_frame net Y slack"
    obtain m where m: "nat (max_iter cfg) = Suc m"
      using h(1) by (metis Suc_pred' zero_less_nat_eq)
    obtain r st' where i: "iteration ls cfg 0 ?st0 = (r, st')" by fastforce
    have "bus_type b = PV \<or> bus_type b = PQ" using h(3) by (cases "bus_type b") auto
    then have "bus_idx b \<in> set (f_PV_active ?st0) \<union> set (f_pq ?st0)"
      using h(2) by (auto simp: init_frame_def pv_indices_def pq_indices_def)
    moreover have "py_index (f_n ?st0) (bus_idx b) = None"
      using h(4) by (simp add: init_frame_def)
    ultimately have "r = Raise IndexError \<or> r = Raise AssertionError"
      using iteration_bad_subscript [OF i] by blast
    then show ?thesis
      using i m assms by (auto simp: solve_def solve_run_def)
  qed
  show ?thesis using 1 2 by blast
qed

section \<open>Instances for the PV sets and the bus subscripts\<close>


lemma init_pv_limit:
  "init_frame net_pv_limit Y_line 0 =
     \<lparr>f_network = net_pv_limit, f_Y = Y_line, f_n = 2, f_slack = 0, f_pv = [1], f_pq = [],
      f_Vm = [1, 1], f_Va = [0, 0], f_P_spec = [0, 0], f_Q_spec = [0, 0],
      f_PV_active = [1], f_PV_conv = [], f_PQ = None\<rparr>"
  by (simp add: init_frame_def net_pv_limit_def nbus_def pv_indices_def pq_indices_def
      Bus_init_def deg2rad_def)

lemma frame_PQ_pv_limit: "frame_PQ (init_frame net_pv_limit Y_line 0) = ([0, 0], [0, 0])"
  by (simp add: frame_PQ_def init_pv_limit injections_flat)

lemma limit_pass_pv_limit:
  "limit_pass (init_frame net_pv_limit Y_line 0) =
     (Continue, (init_frame net_pv_limit Y_line 0)
        \<lparr>f_Q_spec := [0, - 1], f_PV_active := [], f_PV_conv := [1],
         f_PQ := Some ([0, 0], [0, 0])\<rparr>)"
  by (simp add: limit_pass_def frame_PQ_pv_limit)
     (simp add: init_pv_limit enforce_one_def py_index_def convert_def,
      simp add: violated_def net_pv_limit_def Bus_init_def convert_def)

lemma iteration_pv_limit:
  "iteration ls cfg_loose it (init_frame net_pv_limit Y_line 0) =
     (Return \<lparr>res_Vm = [1, 1], res_Va = [0, 0], res_P = [0, 0], res_Q = [0, 0],
        iterations = int it, converged = True\<rparr>,
      (init_frame net_pv_limit Y_line 0)
        \<lparr>f_Q_spec := [0, - 1], f_PV_active := [], f_PV_conv := [1],
         f_PQ := Some ([0, 0], [0, 0])\<rparr>)"
proof -
  let ?st = "init_frame net_pv_limit Y_line 0"
  let ?st2 = "?st\<lparr>f_Q_spec := [0, - 1], f_PV_active := [], f_PV_conv := [1],
         f_PQ := Some ([0, 0], [0, 0])\<rparr>"
  have e: "enforce_limits (snd (frame_PQ ?st)) (f_PV_active ?st) (?st\<lparr>f_PQ := Some (frame_PQ ?st)\<rparr>)
      = (Continue, ?st2)"
    using limit_pass_pv_limit by (simp add: limit_pass_def)
  have q: "q_rows ?st2 = [1]" and p: "p_rows ?st2 = [1]"
    by (simp_all add: init_pv_limit q_rows_def p_rows_def upt_2)
  have h2: "list_all (\<lambda>k. py_index (f_n ?st2) k \<noteq> None) (q_rows ?st2)"
    unfolding q by (simp add: init_pv_limit py_index_def)
  have m: "mismatch ?st2 (fst (frame_PQ ?st)) (snd (frame_PQ ?st)) = [0, - 1]"
    by (simp add: mismatch_def p q frame_PQ_pv_limit) (simp add: init_pv_limit getitem_def pos_def)
  have h3: "mismatch ?st2 (fst (frame_PQ ?st)) (snd (frame_PQ ?st)) \<noteq> []"
    unfolding m by simp
  have h4: "max_abs (mismatch ?st2 (fst (frame_PQ ?st)) (snd (frame_PQ ?st))) < tol cfg_loose"
    unfolding m by (simp add: max_abs_def cfg_loose_def LoadFlow_init_def)
  show ?thesis
    using iteration_converges [OF e h2 h3 h4, of ls it]
    by (simp add: frame_PQ_pv_limit) (simp add: init_pv_limit)
qed

theorem pv_sets_one_way_witness:
  "frame_at linalg_solve cfg_loose (init_frame net_pv_limit Y_line 0) 0
     = Some (init_frame net_pv_limit Y_line 0) \<and>
   f_PV_active (init_frame net_pv_limit Y_line 0) = [1] \<and>
   f_PV_conv (init_frame net_pv_limit Y_line 0) = [] \<and>
   f_PV_active (snd (iteration linalg_solve cfg_loose 0 (init_frame net_pv_limit Y_line 0))) = [] \<and>
   f_PV_conv (snd (iteration linalg_solve cfg_loose 0 (init_frame net_pv_limit Y_line 0))) = [1] \<and>
   f_Q_spec (snd (iteration linalg_solve cfg_loose 0 (init_frame net_pv_limit Y_line 0))) = [0, - 1] \<and>
   py_index (nbus net_pv_limit) 1 = Some 1 \<and>
   violates (buses net_pv_limit ! 1) (snd (frame_PQ (init_frame net_pv_limit Y_line 0)) ! 1) (- 1)"
proof -
  let ?st = "init_frame net_pv_limit Y_line 0"
  let ?st2 = "?st\<lparr>f_Q_spec := [0, - 1], f_PV_active := [], f_PV_conv := [1],
         f_PQ := Some ([0, 0], [0, 0])\<rparr>"
  have h1: "frame_at linalg_solve cfg_loose ?st 0 = Some ?st" by simp
  have h2: "frame_at linalg_solve cfg_loose ?st (0 + 0) = Some ?st" by simp
  have h3: "iteration linalg_solve cfg_loose (0 + 0) ?st =
     (Return \<lparr>res_Vm = [1, 1], res_Va = [0, 0], res_P = [0, 0], res_Q = [0, 0],
        iterations = int (0 + 0), converged = True\<rparr>, ?st2)"
    by (rule iteration_pv_limit)
  have v: "violates (buses net_pv_limit ! 1) (snd (frame_PQ ?st) ! 1) (- 1)"
    by (simp add: frame_PQ_pv_limit) (simp add: violates_def net_pv_limit_def Bus_init_def)
  have n: "py_index (nbus net_pv_limit) 1 = Some 1"
    by (simp add: py_index_def nbus_def net_pv_limit_def)
  have a: "f_PV_active ?st = [1]" "f_PV_conv ?st = []" by (simp_all add: init_pv_limit)
  show ?thesis
    using pv_sets_one_way [OF h1 h2 h3] h1 h3 v n a by simp
qed


lemma build_ybus_net_slack_idx: "build_ybus net_slack_idx = Inr Y_line"
  by (simp add: build_ybus_def net_slack_idx_def nbus_def Bus_init_def line01_def branch_stamp_def
      Let_def ebind_def add_at_def py_index_def mat_add_def deg2rad_def Y_line_def
      numeral_2_eq_2 inverse_Complex_0_1 Complex_eq_0)

lemma slack_net_slack_idx: "slack_index net_slack_idx = Inr 2"
  by (simp add: slack_index_def net_slack_idx_def Bus_init_def)

lemma init_slack_idx:
  "init_frame net_slack_idx Y_line 2 =
     \<lparr>f_network = net_slack_idx, f_Y = Y_line, f_n = 2, f_slack = 2, f_pv = [], f_pq = [1],
      f_Vm = [1, 1], f_Va = [0, 0], f_P_spec = [0, 0], f_Q_spec = [0, 0],
      f_PV_active = [], f_PV_conv = [], f_PQ = None\<rparr>"
  by (simp add: init_frame_def net_slack_idx_def nbus_def pv_indices_def pq_indices_def
      Bus_init_def deg2rad_def)

lemma frame_PQ_slack_idx: "frame_PQ (init_frame net_slack_idx Y_line 2) = ([0, 0], [0, 0])"
  by (simp add: frame_PQ_def init_slack_idx injections_flat)

lemma limit_pass_slack_idx:
  "limit_pass (init_frame net_slack_idx Y_line 2) =
     (Continue, (init_frame net_slack_idx Y_line 2)\<lparr>f_PQ := Some ([0, 0], [0, 0])\<rparr>)"
  by (simp add: limit_pass_def frame_PQ_slack_idx) (simp add: init_slack_idx)

lemma mismatch_slack_idx: "frame_mismatch (init_frame net_slack_idx Y_line 2) = [0, 0, 0]"
  by (simp add: frame_mismatch_def limit_pass_slack_idx frame_PQ_slack_idx)
     (simp add: init_slack_idx mismatch_def p_rows_def q_rows_def getitem_def pos_def upt_2)

text \<open>The Slack bus carries \<open>idx = 2\<close> in a network of two buses, and \<open>solve\<close> returns a
  result: no subscript fails.\<close>

theorem slack_idx_out_of_range_counterexample:
  "bus_idx (buses net_slack_idx ! 0) = 2 \<and> bus_type (buses net_slack_idx ! 0) = SLACK \<and>
   nbus net_slack_idx = 2 \<and> py_index (nbus net_slack_idx) 2 = None \<and>
   solve linalg_solve cfg_default net_slack_idx =
     Inr \<lparr>res_Vm = [1, 1], res_Va = [0, 0], res_P = [0, 0], res_Q = [0, 0],
          iterations = 0, converged = True\<rparr>"
proof -
  let ?st = "init_frame net_slack_idx Y_line 2"
  have h3: "int 0 < max_iter cfg_default"
    by (simp add: cfg_default_def LoadFlow_init_def)
  have h4: "frame_at linalg_solve cfg_default ?st 0 = Some ?st" by simp
  have h5: "fst (limit_pass ?st) = Continue" by (simp add: limit_pass_slack_idx)
  have h6: "list_all (\<lambda>k. py_index (f_n ?st) k \<noteq> None) (q_rows (snd (limit_pass ?st)))"
    by (simp add: limit_pass_slack_idx) (simp add: init_slack_idx q_rows_def py_index_def)
  have h7: "frame_mismatch ?st \<noteq> []" by (simp add: mismatch_slack_idx)
  have h8: "max_abs (frame_mismatch ?st) < tol cfg_default"
    by (simp add: mismatch_slack_idx max_abs_def cfg_default_def LoadFlow_init_def)
  have v: "f_Vm ?st = [1, 1]" "f_Va ?st = [0, 0]" by (simp_all add: init_slack_idx)
  have b: "bus_idx (buses net_slack_idx ! 0) = 2" "bus_type (buses net_slack_idx ! 0) = SLACK"
    "nbus net_slack_idx = 2"
    by (simp_all add: net_slack_idx_def Bus_init_def nbus_def)
  have n: "py_index (nbus net_slack_idx) 2 = None" by (simp add: b py_index_def)
  show ?thesis
    using solve_converges_at
      [OF build_ybus_net_slack_idx slack_net_slack_idx h3 h4 h5 h6 h7 h8] b n
    by (simp add: frame_PQ_slack_idx v)
qed

lemma build_ybus_net_pq_idx: "build_ybus net_pq_idx = Inr Y_line"
  by (simp add: build_ybus_def net_pq_idx_def nbus_def Bus_init_def line01_def branch_stamp_def
      Let_def ebind_def add_at_def py_index_def mat_add_def deg2rad_def Y_line_def
      numeral_2_eq_2 inverse_Complex_0_1 Complex_eq_0)

lemma build_ybus_net_swapped: "build_ybus net_swapped = Inr Y_line"
  by (simp add: build_ybus_def net_swapped_def nbus_def Bus_init_def line01_def branch_stamp_def
      Let_def ebind_def add_at_def py_index_def mat_add_def deg2rad_def Y_line_def
      numeral_2_eq_2 inverse_Complex_0_1 Complex_eq_0)

theorem bus_idx_subscripts_witness:
  "build_ybus net_pq_idx = Inr Y_line \<and> slack_index net_pq_idx = Inr 0 \<and>
   0 < max_iter cfg_default \<and>
   Bus_init 5 PQ 1 0 0 0 None None \<in> set (buses net_pq_idx) \<and>
   py_index (nbus net_pq_idx) 5 = None \<and>
   (solve linalg_solve cfg_default net_pq_idx = Inl IndexError \<or>
    solve linalg_solve cfg_default net_pq_idx = Inl AssertionError) \<and>
   build_ybus net_swapped = Inr Y_line \<and> slack_index net_swapped = Inr 0 \<and>
   bus_idx (buses net_swapped ! 0) = 1 \<and> bus_type (buses net_swapped ! 0) = PQ \<and>
   bus_Q (buses net_swapped ! 0) = - 1 / 2 \<and>
   getitem (f_Q_spec (init_frame net_swapped Y_line 0)) 1 = 0"
proof -
  have s: "slack_index net_pq_idx = Inr 0"
    by (simp add: slack_index_def net_pq_idx_def Bus_init_def)
  have m: "0 < max_iter cfg_default" by (simp add: cfg_default_def LoadFlow_init_def)
  have b: "Bus_init 5 PQ 1 0 0 0 None None \<in> set (buses net_pq_idx)"
    by (simp add: net_pq_idx_def)
  have t: "bus_type (Bus_init 5 PQ 1 0 0 0 None None) \<noteq> SLACK" by (simp add: Bus_init_def)
  have n: "py_index (nbus net_pq_idx) (bus_idx (Bus_init 5 PQ 1 0 0 0 None None)) = None"
    by (simp add: py_index_def nbus_def net_pq_idx_def Bus_init_def)
  have s': "slack_index net_swapped = Inr 0"
    by (simp add: slack_index_def net_swapped_def Bus_init_def)
  have k: "py_index (nbus net_swapped) 1 = Some 1"
    by (simp add: py_index_def nbus_def net_swapped_def)
  have w: "bus_idx (buses net_swapped ! 0) = 1" "bus_type (buses net_swapped ! 0) = PQ"
    "bus_Q (buses net_swapped ! 0) = - 1 / 2" "bus_type (buses net_swapped ! 1) = SLACK"
    by (simp_all add: net_swapped_def Bus_init_def)
  have 1: "solve linalg_solve cfg_default net_pq_idx = Inl IndexError \<or>
    solve linalg_solve cfg_default net_pq_idx = Inl AssertionError"
    using bus_idx_subscripts [OF build_ybus_net_pq_idx s, of cfg_default
        "Bus_init 5 PQ 1 0 0 0 None None" linalg_solve] m b t n by blast
  have 2: "getitem (f_Q_spec (init_frame net_swapped Y_line 0)) 1 = 0"
    using bus_idx_subscripts [OF build_ybus_net_swapped s'] k w(4) by fastforce
  show ?thesis
    using 1 2 build_ybus_net_pq_idx s m b n build_ybus_net_swapped s' w
    by (simp add: Bus_init_def)
qed

end
